theory Spec2Isabelle
  imports Complex_Main
begin

section \<open>The visualizer of src/visualizer.py\<close>

text \<open>
  A shallow embedding of the class \<^verbatim>\<open>Visualizer\<close>. Python floats are read as real
  numbers (no rounding, no signed zero, no NaN), Python ints as \<open>int\<close>. A method that
  mutates \<^verbatim>\<open>self\<close> takes the state and returns the new one. A method that can raise
  returns a sum: \<open>Inr\<close> the state after a normal return, \<open>Inl\<close> the exception together
  with the state the object is left in when the exception leaves the method.
\<close>

subsection \<open>Library functions the source calls\<close>

text \<open>
  \<^verbatim>\<open>math.atan2(y, x)\<close> on reals: the angle of the point \<open>(x, y)\<close>, in \<open>(-pi, pi]\<close>,
  and 0 at the origin.
\<close>

definition atan2 :: "real \<Rightarrow> real \<Rightarrow> real" where
  "atan2 y x =
     (if 0 < x then arctan (y / x)
      else if x < 0 then (if 0 \<le> y then arctan (y / x) + pi else arctan (y / x) - pi)
      else if 0 < y then pi / 2
      else if y < 0 then - (pi / 2)
      else 0)"

text \<open>Python's \<^verbatim>\<open>x % y\<close> on floats takes the sign of \<open>y\<close>: \<open>x - y * floor (x / y)\<close>.\<close>

definition py_mod :: "real \<Rightarrow> real \<Rightarrow> real" where
  "py_mod x y = x - y * of_int \<lfloor>x / y\<rfloor>"

text \<open>Python's \<^verbatim>\<open>int(x)\<close> on a float truncates toward zero.\<close>

definition py_int :: "real \<Rightarrow> int" where
  "py_int x = (if 0 \<le> x then \<lfloor>x\<rfloor> else \<lceil>x\<rceil>)"

text \<open>
  \<^verbatim>\<open>pygame.Rect(left, top, w, h)\<close> and its \<^verbatim>\<open>collidepoint\<close>: a point on the right or
  bottom edge is outside.
\<close>

record rect =
  left :: int
  top :: int
  rect_w :: int
  rect_h :: int

definition collidepoint :: "rect \<Rightarrow> int \<times> int \<Rightarrow> bool" where
  "collidepoint r pos =
     (left r \<le> fst pos \<and> fst pos < left r + rect_w r \<and>
      top r \<le> snd pos \<and> snd pos < top r + rect_h r)"

text \<open>
  A pygame surface has its pixels and its per-surface alpha. The pixels are recorded as
  the drawing operations applied since the surface was last filled: nothing for a new
  \<^verbatim>\<open>SRCALPHA\<close> surface or one filled with the transparent colour, the fill itself for
  another colour. The alpha is what the last \<^verbatim>\<open>set_alpha\<close> gave, \<open>None\<close> when there was no
  such call; \<^verbatim>\<open>fill\<close> does not touch it. A blit records the pixels and the alpha of its
  source and its blend flag; a rendered text is recorded by its string, colour, font size,
  the centre of its rectangle and the offset of the blit from there. The drawing
  primitives themselves are taken to succeed.
\<close>

datatype blend = NoFlags | BlendAlphaSDL2

datatype draw_op =
    Fill "int \<times> int \<times> int \<times> int"
  | Line "int \<times> int \<times> int \<times> int" "real \<times> real" "real \<times> real" int
  | Circle "int \<times> int \<times> int \<times> int" "real \<times> real" int
  | Polygon "int \<times> int \<times> int \<times> int" "(real \<times> real) list"
  | Text string "int \<times> int \<times> int" int "int \<times> int" "int \<times> int"
  | Blit "draw_op list" "int option" blend

record surface =
  pixels :: "draw_op list"
  surf_alpha :: "int option"

definition new_surface :: surface where
  "new_surface = \<lparr>pixels = [], surf_alpha = None\<rparr>"

definition surf_fill :: "surface \<Rightarrow> int \<times> int \<times> int \<times> int \<Rightarrow> surface" where
  "surf_fill surf c = surf\<lparr>pixels := (if c = (0, 0, 0, 0) then [] else [Fill c])\<rparr>"


definition paint :: "surface \<Rightarrow> draw_op list \<Rightarrow> surface" where
  "paint surf ops = surf\<lparr>pixels := pixels surf @ ops\<rparr>"

definition blit :: "surface \<Rightarrow> surface \<Rightarrow> blend \<Rightarrow> surface" where
  "blit dst src flag = paint dst [Blit (pixels src) (surf_alpha src) flag]"





subsection \<open>Data\<close>

datatype error = ZeroDivisionError | IndexError

text \<open>An orb is the dict built in \<^verbatim>\<open>__init__\<close>, with its seven keys.\<close>

record orb =
  color :: "int \<times> int \<times> int"
  angle :: real
  deviation :: real
  radial_velocity :: real
  angular_velocity :: real
  x_velocity :: real
  y_velocity :: real

type_synonym trail_point = "real \<times> real \<times> real"
type_synonym trail = "trail_point list"

text \<open>
  The audio input: \<^verbatim>\<open>None\<close> or a dict from keys to values. A Python \<^verbatim>\<open>bool\<close> is a
  number (\<^verbatim>\<open>True * 0.5 == 0.5\<close>).
\<close>

datatype pyval = PNum real | PBool bool

type_synonym pydict = "string \<rightharpoonup> pyval"
type_synonym audio_data = "pydict option"

fun num_of :: "pyval \<Rightarrow> real" where
  "num_of (PNum r) = r"
| "num_of (PBool b) = (if b then 1 else 0)"

text \<open>\<^verbatim>\<open>d.get(key, default)\<close>\<close>

definition dict_get :: "pydict \<Rightarrow> string \<Rightarrow> pyval \<Rightarrow> pyval" where
  "dict_get d k dflt = (case d k of None \<Rightarrow> dflt | Some v \<Rightarrow> v)"

text \<open>\<^verbatim>\<open>audio_data.get('intensity', 0)\<close>, as the number the arithmetic uses.\<close>

definition intensity_of :: "pydict \<Rightarrow> real" where
  "intensity_of d = num_of (dict_get d ''intensity'' (PNum 0))"

text \<open>
  The argument of \<^verbatim>\<open>draw_stored_pattern\<close>: something that is not a dict, or a dict, of
  which only the entry under \<^verbatim>\<open>'trails'\<close> is read (\<open>None\<close> when the key is missing).
\<close>

datatype pattern = NotDict | Dict "trail list option"

text \<open>
  The fields of the instance that some method assigns or that depend on the constructor's
  arguments. The fonts are left out.
\<close>

record visualizer =
  width :: int
  height :: int
  center :: "int \<times> int"
  screenshot_mode :: bool
  main_surface :: surface
  glow_surface :: surface
  trail_surface :: surface
  blur_surface :: surface
  orbit_radius :: int
  max_deviation :: real
  orbs :: "orb list"
  trails :: "trail list"
  time :: real
  selection_pulse :: real
  glow_intensity :: real
  fade_alpha :: int

definition orbital_orb_size :: int where "orbital_orb_size = 6"
definition base_speed :: real where "base_speed = 0.001"
definition spring_constant :: real where "spring_constant = 0.01"
definition damping :: real where "damping = 0.98"
definition attraction_strength :: real where "attraction_strength = 0.5"

definition back_button :: rect where
  "back_button = \<lparr>left = 20, top = 20, rect_w = 40, rect_h = 40\<rparr>"

subsection \<open>\<^verbatim>\<open>__init__\<close>\<close>

definition new_orb :: "int \<times> int \<times> int \<Rightarrow> real \<Rightarrow> orb" where
  "new_orb col a =
     \<lparr>color = col, angle = a, deviation = 0, radial_velocity = 0,
      angular_velocity = base_speed, x_velocity = 0, y_velocity = 0\<rparr>"

definition init :: "int \<Rightarrow> int \<Rightarrow> visualizer" where
  "init w h =
     (let os = map (\<lambda>(col, a). new_orb col a)
                 [((80, 180, 255), 0),
                  ((255, 80, 150), 2 * pi / 5),
                  ((255, 200, 80), 4 * pi / 5),
                  ((200, 255, 80), 6 * pi / 5),
                  ((230, 130, 255), 8 * pi / 5)]
      in \<lparr>width = w, height = h, center = (w div 2, h div 2), screenshot_mode = False,
          main_surface = new_surface, glow_surface = new_surface,
          trail_surface = new_surface, blur_surface = new_surface,
          orbit_radius = min w h div 4,
          max_deviation = of_int (min w h div 4) * 1.5,
          orbs = os,
          trails = replicate (length os) [],
          time = 0, selection_pulse = 0, glow_intensity = 0, fade_alpha = 255\<rparr>)"


subsection \<open>\<^verbatim>\<open>update\<close>\<close>

text \<open>
  Lines 95 to 99: the spring acts when the deviation is not zero.
\<close>

definition spring_back :: "orb \<Rightarrow> orb" where
  "spring_back orb5 =
     (if \<bar>deviation orb5\<bar> > 0 then
        (let return_force = - spring_constant * deviation orb5;
             orb6 = orb5\<lparr>radial_velocity := radial_velocity orb5 + return_force\<rparr>;
             orb7 = orb6\<lparr>deviation := deviation orb6 + radial_velocity orb6\<rparr>
         in orb7\<lparr>radial_velocity := radial_velocity orb7 * damping\<rparr>)
      else orb5)"

text \<open>
  Lines 84 to 101 of the loop body, for one orb: the velocity moves the point, the polar
  state is read back from it, the velocity is damped, the spring acts. The result is the
  orb and the point appended to its trail.
\<close>

definition orb_settle ::
  "int \<times> int \<Rightarrow> int \<Rightarrow> real \<Rightarrow> orb \<Rightarrow> real \<Rightarrow> real \<Rightarrow> orb \<times> trail_point" where
  "orb_settle c R intensity orb1 x0 y0 =
     (let current_x = x0 + x_velocity orb1;
          current_y = y0 + y_velocity orb1;
          new_angle = atan2 (current_y - of_int (snd c)) (current_x - of_int (fst c));
          new_radius = sqrt ((current_x - of_int (fst c))\<^sup>2 + (current_y - of_int (snd c))\<^sup>2);
          orb2 = orb1\<lparr>deviation := new_radius - of_int R\<rparr>;
          orb3 = orb2\<lparr>angle := new_angle\<rparr>;
          orb4 = orb3\<lparr>x_velocity := x_velocity orb3 * damping\<rparr>;
          orb5 = orb4\<lparr>y_velocity := y_velocity orb4 * damping\<rparr>
      in (spring_back orb5, (current_x, current_y, intensity)))"

text \<open>
  Lines 69 to 82, then the rest. The division \<^verbatim>\<open>dx/dist\<close> raises
  \<^verbatim>\<open>ZeroDivisionError\<close> when \<open>dist\<close> is zero; the orb then has only its angle advanced.
\<close>

definition orb_step ::
  "int \<times> int \<Rightarrow> int \<Rightarrow> real \<Rightarrow> orb \<Rightarrow> (error \<times> orb) + (orb \<times> trail_point)" where
  "orb_step c R intensity orb0 =
     (let orb1 = orb0\<lparr>angle := angle orb0 + angular_velocity orb0\<rparr>;
          radius = of_int R + deviation orb1;
          current_x = of_int (fst c) + cos (angle orb1) * radius;
          current_y = of_int (snd c) + sin (angle orb1) * radius
      in if intensity > 0 then
           (let dx = of_int (fst c) - current_x;
                dy = of_int (snd c) - current_y;
                dist = sqrt (dx * dx + dy * dy);
                attraction = attraction_strength * intensity
            in if dist = 0 then Inl (ZeroDivisionError, orb1)
               else Inr (orb_settle c R intensity
                      (orb1\<lparr>x_velocity := x_velocity orb1 + (dx / dist) * attraction,
                            y_velocity := y_velocity orb1 + (dy / dist) * attraction\<rparr>)
                      current_x current_y))
         else Inr (orb_settle c R intensity orb1 current_x current_y))"

text \<open>
  The loop \<^verbatim>\<open>for i, orb in enumerate(self.orbs)\<close>, from index \<open>i\<close> on. The orbs are
  changed in place, \<^verbatim>\<open>self.trails[i].append\<close> raises \<^verbatim>\<open>IndexError\<close> when there is no
  trail \<open>i\<close>.
\<close>

fun update_orbs ::
  "int \<times> int \<Rightarrow> int \<Rightarrow> real \<Rightarrow> nat \<Rightarrow> orb list \<Rightarrow> trail list \<Rightarrow>
     (error \<times> orb list \<times> trail list) + (orb list \<times> trail list)" where
  "update_orbs c R intensity i [] ts = Inr ([], ts)"
| "update_orbs c R intensity i (orb0 # rest) ts =
     (case orb_step c R intensity orb0 of
        Inl (e, orb1) \<Rightarrow> Inl (e, orb1 # rest, ts)
      | Inr (orb1, p) \<Rightarrow>
          if i < length ts then
            (case update_orbs c R intensity (Suc i) rest (ts[i := ts ! i @ [p]]) of
               Inl (e, rest', ts') \<Rightarrow> Inl (e, orb1 # rest', ts')
             | Inr (rest', ts') \<Rightarrow> Inr (orb1 # rest', ts'))
          else Inl (IndexError, orb1 # rest, ts))"

text \<open>
  \<^verbatim>\<open>update(audio_data, category)\<close>. \<^verbatim>\<open>not audio_data\<close> holds for \<^verbatim>\<open>None\<close> and for the
  empty dict.
\<close>

definition update ::
  "visualizer \<Rightarrow> audio_data \<Rightarrow> string \<Rightarrow> (error \<times> visualizer) + visualizer" where
  "update s audio category =
     (case audio of
        None \<Rightarrow> Inr s
      | Some d \<Rightarrow>
          if d = Map.empty then Inr s
          else
            (let intensity = intensity_of d;
                 has_peak = dict_get d ''has_recent_peak'' (PBool False);
                 s1 = s\<lparr>glow_intensity := min 1.0 (glow_intensity s + intensity * 0.5)\<rparr>;
                 s2 = s1\<lparr>glow_intensity := glow_intensity s1 * 0.95\<rparr>
             in case update_orbs (center s2) (orbit_radius s2) intensity 0 (orbs s2) (trails s2) of
                  Inl (e, os, ts) \<Rightarrow> Inl (e, s2\<lparr>orbs := os, trails := ts\<rparr>)
                | Inr (os, ts) \<Rightarrow>
                    (let s3 = s2\<lparr>orbs := os, trails := ts\<rparr>;
                         s4 = s3\<lparr>time := time s3 + 0.016\<rparr>
                     in Inr (s4\<lparr>selection_pulse :=
                                 py_mod (selection_pulse s4 + 0.05) (2 * pi)\<rparr>))))"

subsection \<open>\<^verbatim>\<open>draw_trails\<close> and \<^verbatim>\<open>draw_stored_pattern\<close>\<close>

text \<open>The loop \<^verbatim>\<open>for j in range(1, len(trail))\<close>: one line per pair of neighbours.\<close>

fun draw_segments :: "int \<times> int \<times> int \<Rightarrow> trail \<Rightarrow> draw_op list \<Rightarrow> draw_op list" where
  "draw_segments (r, g, b) (p # q # rest) surf =
     (let start_pos = (fst p, fst (snd p));
          end_pos = (fst q, fst (snd q));
          intensity = snd (snd q);
          w = max 4 (py_int (8 * intensity));
          alpha = py_int (255 * (0.5 + intensity * 0.5))
      in draw_segments (r, g, b) (q # rest) (surf @ [Line (r, g, b, alpha) start_pos end_pos w]))"
| "draw_segments col ps surf = surf"

text \<open>
  The loop over the trails, from index \<open>i\<close> on, on the pixels of the trail layer. A trail
  of two points or more reads \<^verbatim>\<open>self.orbs[i]\<close>, which raises \<^verbatim>\<open>IndexError\<close> when there is
  no orb \<open>i\<close>.
\<close>

fun draw_trail_loop ::
  "orb list \<Rightarrow> nat \<Rightarrow> trail list \<Rightarrow> draw_op list \<Rightarrow>
     (error \<times> draw_op list) + draw_op list" where
  "draw_trail_loop os i [] surf = Inr surf"
| "draw_trail_loop os i (t # ts) surf =
     (if length t < 2 then draw_trail_loop os (Suc i) ts surf
      else if i < length os then
        draw_trail_loop os (Suc i) ts (draw_segments (color (os ! i)) t surf)
      else Inl (IndexError, surf))"

definition draw_trails ::
  "visualizer \<Rightarrow> surface \<Rightarrow> (error \<times> visualizer \<times> surface) + (visualizer \<times> surface)" where
  "draw_trails s screen =
     (case draw_trail_loop (orbs s) 0 (trails s) (pixels (surf_fill (trail_surface s) (0, 0, 0, 0))) of
        Inl (e, px) \<Rightarrow> Inl (e, s\<lparr>trail_surface := (trail_surface s)\<lparr>pixels := px\<rparr>\<rparr>, screen)
      | Inr px \<Rightarrow>
          (let s1 = s\<lparr>trail_surface := (trail_surface s)\<lparr>pixels := px\<rparr>\<rparr>
           in Inr (s1, blit screen (trail_surface s1) BlendAlphaSDL2)))"

definition draw_stored_pattern ::
  "visualizer \<Rightarrow> surface \<Rightarrow> pattern \<Rightarrow>
     (error \<times> visualizer \<times> surface) + (visualizer \<times> surface)" where
  "draw_stored_pattern s screen pat =
     (case pat of
        NotDict \<Rightarrow> Inr (s, screen)
      | Dict None \<Rightarrow> Inr (s, screen)
      | Dict (Some ts) \<Rightarrow>
          (case draw_trails (s\<lparr>trails := ts\<rparr>) screen of
             Inl r \<Rightarrow> Inl r
           | Inr (s', screen') \<Rightarrow>
               Inr (s'\<lparr>trails := replicate (length (orbs s')) []\<rparr>, screen')))"

subsection \<open>\<^verbatim>\<open>get_voice_name\<close>\<close>


subsection \<open>\<^verbatim>\<open>draw_orb\<close>, \<^verbatim>\<open>draw_back_button\<close>, \<^verbatim>\<open>draw_timer\<close>\<close>




subsection \<open>\<^verbatim>\<open>draw\<close>, \<^verbatim>\<open>draw_selection\<close>, \<^verbatim>\<open>draw_conclusion\<close>, \<^verbatim>\<open>cleanup\<close>\<close>








subsection \<open>\<^verbatim>\<open>handle_click\<close>, \<^verbatim>\<open>reset\<close>\<close>

definition handle_click :: "visualizer \<Rightarrow> int \<times> int \<Rightarrow> string option" where
  "handle_click s pos =
     (if collidepoint back_button pos \<and> \<not> screenshot_mode s then Some ''selection''
      else None)"



subsection \<open>A sequence of calls\<close>

text \<open>
  The frame driver calls \<^verbatim>\<open>update\<close> once per frame; an exception ends the sequence.
\<close>

fun run_updates ::
  "visualizer \<Rightarrow> (audio_data \<times> string) list \<Rightarrow> (error \<times> visualizer) + visualizer" where
  "run_updates s [] = Inr s"
| "run_updates s ((a, c) # calls) =
     (case update s a c of Inl r \<Rightarrow> Inl r | Inr s' \<Rightarrow> run_updates s' calls)"

fun state_of :: "(error \<times> visualizer) + visualizer \<Rightarrow> visualizer" where
  "state_of (Inl (e, s)) = s"
| "state_of (Inr s) = s"

subsection \<open>What the constructor fixes\<close>


subsection \<open>The radial state of an orb that has no Cartesian velocity\<close>

text \<open>
  What one update of intensity 0 does to the pair (deviation, radial velocity) of an orb
  whose Cartesian velocity is zero: line 89 reads the deviation back as
  \<open>\<bar>orbit_radius + deviation\<bar> - orbit_radius\<close>, then lines 95 to 99 apply the spring. That
  \<^verbatim>\<open>update\<close> does this is the lemma \<open>orb_step_pair\<close>.
\<close>

fun spring_pair :: "int \<Rightarrow> real \<times> real \<Rightarrow> real \<times> real" where
  "spring_pair R (d, v) =
     (let d1 = \<bar>of_int R + d\<bar> - of_int R
      in if \<bar>d1\<bar> > 0 then
           (let v1 = v + - spring_constant * d1 in (d1 + v1, v1 * damping))
         else (d1, v))"

text \<open>
  A quadratic form of the pair that one application of the spring multiplies by 0.98.
\<close>

fun spring_energy :: "real \<times> real \<Rightarrow> real" where
  "spring_energy (d, v) = 98 / 10000 * d\<^sup>2 + 1 / 100 * d * v + v\<^sup>2"

text \<open>
  An 800 by 600 instance whose orbs are displaced from the orbit by one millionth of a
  pixel and have no velocity: the state the perturbed-orb property starts from.
\<close>

definition perturbed :: visualizer where
  "perturbed = (init 800 600)\<lparr>orbs := map (\<lambda>x. x\<lparr>deviation := 1 / 1000000\<rparr>) (orbs (init 800 600))\<rparr>"

subsection \<open>The instances a program can hold\<close>





section \<open>Facts about the library functions\<close>





lemma polar_radius: "sqrt ((cos b * r)\<^sup>2 + (sin b * r)\<^sup>2) = \<bar>r\<bar>"
proof -
  have "(cos b * r)\<^sup>2 + (sin b * r)\<^sup>2 = r\<^sup>2 * ((sin b)\<^sup>2 + (cos b)\<^sup>2)"
    by algebra
  also have "\<dots> = r\<^sup>2" by simp
  finally show ?thesis by simp
qed


section \<open>The loop over the orbs\<close>

lemma update_orbs_length:
  "update_orbs c R I i os ts = Inr (os', ts') \<Longrightarrow>
     length os' = length os \<and> length ts' = length ts \<and> (os \<noteq> [] \<longrightarrow> i + length os \<le> length ts)"
proof (induction os arbitrary: i ts os' ts')
  case Nil
  then show ?case by simp
next
  case (Cons o1 rest)
  then show ?case
    by (fastforce split: sum.splits prod.splits if_splits)
qed

lemma update_orbs_length_err:
  "update_orbs c R I i os ts = Inl (e, os', ts') \<Longrightarrow>
     length os' = length os \<and> length ts' = length ts"
proof (induction os arbitrary: i ts os' ts')
  case Nil
  then show ?case by simp
next
  case (Cons o1 rest)
  then show ?case
    by (fastforce split: sum.splits prod.splits if_splits)
qed

lemma update_orbs_other:
  "update_orbs c R I i os ts = Inr (os', ts') \<Longrightarrow> k < i \<or> i + length os \<le> k \<Longrightarrow>
     ts' ! k = ts ! k"
proof (induction os arbitrary: i ts os' ts')
  case Nil
  then show ?case by simp
next
  case (Cons o1 rest)
  then show ?case
    by (fastforce split: sum.splits prod.splits if_splits)
qed

lemma update_orbs_nth:
  "update_orbs c R I i os ts = Inr (os', ts') \<Longrightarrow> j < length os \<Longrightarrow>
     \<exists>p. orb_step c R I (os ! j) = Inr (os' ! j, p) \<and> ts' ! (i + j) = ts ! (i + j) @ [p]"
proof (induction os arbitrary: i j ts os' ts')
  case Nil
  then show ?case by simp
next
  case (Cons o1 rest)
  from Cons.prems(1) obtain o1' p rest' where
    st: "orb_step c R I o1 = Inr (o1', p)" and i: "i < length ts" and
    rec: "update_orbs c R I (Suc i) rest (ts[i := ts ! i @ [p]]) = Inr (rest', ts')" and
    os': "os' = o1' # rest'"
    by (auto split: sum.splits prod.splits if_splits)
  show ?case
  proof (cases j)
    case 0
    have "ts' ! i = (ts[i := ts ! i @ [p]]) ! i"
      using update_orbs_other [OF rec, of i] by simp
    then show ?thesis using 0 st os' i by (intro exI [of _ p]) simp
  next
    case (Suc j')
    then have "j' < length rest" using Cons.prems(2) by simp
    from Cons.IH [OF rec this] show ?thesis using Suc os' by simp
  qed
qed

lemma update_orbs_total:
  "\<forall>x \<in> set os. \<exists>r. orb_step c R I x = Inr r \<Longrightarrow> i + length os \<le> length ts \<Longrightarrow>
     \<exists>r. update_orbs c R I i os ts = Inr r"
proof (induction os arbitrary: i ts)
  case Nil
  then show ?case by simp
next
  case (Cons o1 rest)
  from Cons.prems(1) obtain o1' p where st: "orb_step c R I o1 = Inr (o1', p)" by auto
  have "\<exists>r. update_orbs c R I (Suc i) rest (ts[i := ts ! i @ [p]]) = Inr r"
    using Cons.prems by (intro Cons.IH) simp_all
  then show ?case using st Cons.prems(2) by (auto split: sum.splits prod.splits)
qed

lemma orb_step_error:
  "orb_step c R I x = Inl (e, x') \<Longrightarrow> e = ZeroDivisionError"
  by (auto simp: orb_step_def Let_def split: if_splits)

lemma update_orbs_error:
  "i + length os \<le> length ts \<Longrightarrow> update_orbs c R I i os ts = Inl (e, os', ts') \<Longrightarrow>
     e = ZeroDivisionError \<and> (\<exists>x \<in> set os. \<exists>y. orb_step c R I x = Inl y)"
proof (induction os arbitrary: i ts os' ts')
  case Nil
  then show ?case by simp
next
  case (Cons o1 rest)
  show ?case
  proof (cases "orb_step c R I o1")
    case (Inl a)
    then show ?thesis using Cons.prems orb_step_error [of c R I o1]
      by (cases a) auto
  next
    case (Inr b)
    obtain o1' p where b: "b = (o1', p)" by (cases b)
    from Cons.prems Inr b obtain rest' where
      rec: "update_orbs c R I (Suc i) rest (ts[i := ts ! i @ [p]]) = Inl (e, rest', ts')"
      by (auto split: sum.splits prod.splits if_splits)
    have "Suc i + length rest \<le> length (ts[i := ts ! i @ [p]])" using Cons.prems(1) by simp
    from Cons.IH [OF this rec] show ?thesis by auto
  qed
qed

section \<open>Facts about \<^verbatim>\<open>update\<close>\<close>

lemma update_absent: "update s None c = Inr s"
  by (simp add: update_def)

lemma update_empty: "update s (Some Map.empty) c = Inr s"
  by (simp add: update_def)

lemma update_present:
  "d \<noteq> Map.empty \<Longrightarrow>
   update s (Some d) c =
     (case update_orbs (center s) (orbit_radius s) (intensity_of d) 0 (orbs s) (trails s) of
        Inl (e, os, ts) \<Rightarrow>
          Inl (e, s\<lparr>glow_intensity := min 1 (glow_intensity s + intensity_of d * 0.5) * 0.95,
                    orbs := os, trails := ts\<rparr>)
      | Inr (os, ts) \<Rightarrow>
          Inr (s\<lparr>glow_intensity := min 1 (glow_intensity s + intensity_of d * 0.5) * 0.95,
                 orbs := os, trails := ts, time := time s + 0.016,
                 selection_pulse := py_mod (selection_pulse s + 0.05) (2 * pi)\<rparr>))"
  by (simp add: update_def Let_def split: sum.splits prod.splits)

lemma update_glow:
  "d \<noteq> Map.empty \<Longrightarrow>
   glow_intensity (state_of (update s (Some d) c)) =
     min 1 (glow_intensity s + intensity_of d * 0.5) * 0.95"
  by (simp add: update_present split: sum.splits prod.splits)

lemma update_Inr:
  assumes "d \<noteq> Map.empty" and "update s (Some d) c = Inr s'"
  shows "update_orbs (center s) (orbit_radius s) (intensity_of d) 0 (orbs s) (trails s) =
           Inr (orbs s', trails s')"
    and "center s' = center s" and "orbit_radius s' = orbit_radius s"
    and "time s' = time s + 0.016"
  using assms by (auto simp: update_present split: sum.splits prod.splits)

lemma update_Inr_orbs:
  assumes "d \<noteq> Map.empty" and "update s (Some d) c = Inr s'"
  shows "length (orbs s') = length (orbs s)" and "length (trails s') = length (trails s)"
    and "length (orbs s) \<le> length (trails s)"
    and "i < length (orbs s) \<Longrightarrow>
           \<exists>p. orb_step (center s) (orbit_radius s) (intensity_of d) (orbs s ! i) = Inr (orbs s' ! i, p)
              \<and> trails s' ! i = trails s ! i @ [p]"
proof -
  note u = update_Inr(1) [OF assms]
  show "length (orbs s') = length (orbs s)" "length (trails s') = length (trails s)"
    using update_orbs_length [OF u] by simp_all
  show "length (orbs s) \<le> length (trails s)"
    using update_orbs_length [OF u] by (cases "orbs s") simp_all
  show "\<exists>p. orb_step (center s) (orbit_radius s) (intensity_of d) (orbs s ! i) = Inr (orbs s' ! i, p)
              \<and> trails s' ! i = trails s ! i @ [p]" if "i < length (orbs s)"
    using update_orbs_nth [OF u that] by simp
qed

lemma orb_step_point:
  "orb_step c R I x = Inr (x', p) \<Longrightarrow> snd (snd p) = I"
  by (auto simp: orb_step_def orb_settle_def Let_def split: if_splits)

lemma orb_step_quiet:
  "I \<le> 0 \<Longrightarrow>
   orb_step c R I x =
     Inr (orb_settle c R I (x\<lparr>angle := angle x + angular_velocity x\<rparr>)
            (of_int (fst c) + cos (angle x + angular_velocity x) * (of_int R + deviation x))
            (of_int (snd c) + sin (angle x + angular_velocity x) * (of_int R + deviation x)))"
  by (simp add: orb_step_def Let_def)

lemma orb_step_quiet_total: "I \<le> 0 \<Longrightarrow> \<exists>r. orb_step c R I x = Inr r"
  using orb_step_quiet by blast

lemma update_quiet_total:
  assumes "d \<noteq> Map.empty" and "intensity_of d \<le> 0" and "length (orbs s) \<le> length (trails s)"
  shows "\<exists>s'. update s (Some d) c = Inr s'"
proof -
  have "\<exists>r. update_orbs (center s) (orbit_radius s) (intensity_of d) 0 (orbs s) (trails s) = Inr r"
  proof (rule update_orbs_total)
    show "\<forall>x\<in>set (orbs s). \<exists>r. orb_step (center s) (orbit_radius s) (intensity_of d) x = Inr r"
      using assms(2) orb_step_quiet_total by blast
    show "0 + length (orbs s) \<le> length (trails s)" using assms(3) by simp
  qed
  then show ?thesis using assms(1) by (auto simp: update_present)
qed

lemma intensity_of_upd [simp]: "intensity_of (m(''intensity'' \<mapsto> PNum r)) = r"
  by (simp add: intensity_of_def dict_get_def)

lemma init_fields [simp]:
  "glow_intensity (init w h) = 0" "time (init w h) = 0" "length (orbs (init w h)) = 5"
  "length (trails (init w h)) = 5" "orbit_radius (init w h) = min w h div 4"
  "center (init w h) = (w div 2, h div 2)" "trails (init w h) = [[], [], [], [], []]"
  by (simp_all add: init_def)

lemma update_keeps_lengths:
  "update s a c = Inr s' \<Longrightarrow> length (orbs s) \<le> length (trails s) \<Longrightarrow>
     length (orbs s') = length (orbs s) \<and> length (orbs s') \<le> length (trails s')"
proof (cases a)
  case None
  assume "update s a c = Inr s'" "length (orbs s) \<le> length (trails s)"
  then show ?thesis using None by (simp add: update_absent)
next
  case (Some d)
  assume u: "update s a c = Inr s'" and l: "length (orbs s) \<le> length (trails s)"
  show ?thesis
  proof (cases "d = Map.empty")
    case True
    then show ?thesis using u l Some by (simp add: update_empty)
  next
    case False
    then show ?thesis using update_Inr_orbs(1,2) [OF False, of s c s'] u l Some by simp
  qed
qed

lemma run_quiet_total:
  "\<forall>(a, c) \<in> set calls. \<exists>d. a = Some d \<and> d \<noteq> Map.empty \<and> intensity_of d \<le> 0 \<Longrightarrow>
   length (orbs s) \<le> length (trails s) \<Longrightarrow> \<exists>s'. run_updates s calls = Inr s'"
proof (induction calls arbitrary: s)
  case Nil
  then show ?case by simp
next
  case (Cons x calls)
  obtain a c where x: "x = (a, c)" by (cases x)
  from Cons.prems(1) x obtain d where d: "a = Some d" "d \<noteq> Map.empty" "intensity_of d \<le> 0"
    by auto
  from update_quiet_total [OF d(2,3) Cons.prems(2)] obtain s1 where
    s1: "update s (Some d) c = Inr s1" by blast
  have "length (orbs s1) \<le> length (trails s1)"
    using update_keeps_lengths [OF s1 Cons.prems(2)] by simp
  moreover have "\<forall>(a, c) \<in> set calls. \<exists>d. a = Some d \<and> d \<noteq> Map.empty \<and> intensity_of d \<le> 0"
    using Cons.prems(1) by simp
  ultimately have "\<exists>s'. run_updates s1 calls = Inr s'" by (intro Cons.IH)
  then show ?case using x d(1) s1 by simp
qed

lemma glow_step_bounds:
  assumes "0 \<le> g" "g \<le> 1" "0 \<le> i" "i \<le> (1::real)"
  shows "0 \<le> min 1 (g + i * 0.5) * 0.95" "min 1 (g + i * 0.5) * 0.95 \<le> 1"
  using assms by (auto simp: min_def)

lemma update_glow_bounds:
  assumes "0 \<le> glow_intensity s" "glow_intensity s \<le> 1"
    and "\<forall>d. a = Some d \<longrightarrow> 0 \<le> intensity_of d \<and> intensity_of d \<le> 1"
  shows "0 \<le> glow_intensity (state_of (update s a c)) \<and> glow_intensity (state_of (update s a c)) \<le> 1"
proof (cases a)
  case None
  then show ?thesis using assms by (simp add: update_absent)
next
  case (Some d)
  show ?thesis
  proof (cases "d = Map.empty")
    case True
    then show ?thesis using assms Some by (simp add: update_empty)
  next
    case False
    have "0 \<le> intensity_of d" "intensity_of d \<le> 1" using assms(3) Some by simp_all
    from glow_step_bounds [OF assms(1,2) this] show ?thesis
      using Some by (simp add: update_glow [OF False])
  qed
qed

lemma run_glow_bounds:
  "0 \<le> glow_intensity s \<Longrightarrow> glow_intensity s \<le> 1 \<Longrightarrow>
   \<forall>(a, c) \<in> set calls. \<forall>d. a = Some d \<longrightarrow> 0 \<le> intensity_of d \<and> intensity_of d \<le> 1 \<Longrightarrow>
   0 \<le> glow_intensity (state_of (run_updates s calls)) \<and>
   glow_intensity (state_of (run_updates s calls)) \<le> 1"
proof (induction calls arbitrary: s)
  case Nil
  then show ?case by simp
next
  case (Cons x calls)
  obtain a c where x: "x = (a, c)" by (cases x)
  have a: "\<forall>d. a = Some d \<longrightarrow> 0 \<le> intensity_of d \<and> intensity_of d \<le> 1"
    using Cons.prems(3) x by simp
  note b = update_glow_bounds [OF Cons.prems(1,2) a, of c]
  show ?case
  proof (cases "update s a c")
    case (Inl r)
    then show ?thesis using b x by simp
  next
    case (Inr s1)
    have "0 \<le> glow_intensity (state_of (run_updates s1 calls)) \<and>
          glow_intensity (state_of (run_updates s1 calls)) \<le> 1"
      using b Inr Cons.prems(3) by (intro Cons.IH) simp_all
    then show ?thesis using Inr x by simp
  qed
qed

lemma intensity_of_other [simp]:
  "k \<noteq> ''intensity'' \<Longrightarrow> intensity_of (m(k \<mapsto> v)) = intensity_of m"
  by (simp add: intensity_of_def dict_get_def)

lemma intensity_of_missing: "m ''intensity'' = None \<Longrightarrow> intensity_of m = 0"
  by (simp add: intensity_of_def dict_get_def)

lemma update_depends_on_intensity:
  assumes d1: "d1 \<noteq> Map.empty" and d2: "d2 \<noteq> Map.empty"
    and eq: "intensity_of d1 = intensity_of d2"
  shows "update s (Some d1) c = update s (Some d2) c'"
  unfolding update_present [OF d1] update_present [OF d2] eq by (rule refl)

lemma update_quiet_time:
  assumes "d \<noteq> Map.empty" and "intensity_of d \<le> 0" and "length (orbs s) \<le> length (trails s)"
  shows "\<not> isl (update s (Some d) c)" and "time (state_of (update s (Some d) c)) = time s + 0.016"
proof -
  from update_quiet_total [OF assms] obtain s' where s': "update s (Some d) c = Inr s'" by blast
  then show "\<not> isl (update s (Some d) c)" by simp
  show "time (state_of (update s (Some d) c)) = time s + 0.016"
    using update_Inr(4) [OF assms(1) s'] s' by simp
qed

lemma not_isl_Inr: "\<not> isl v \<Longrightarrow> \<exists>r. v = Inr r"
  by (cases v) simp_all

lemma center_distance:
  "sqrt ((cx - (cx + cos a * r)) * (cx - (cx + cos a * r)) +
         (cy - (cy + sin a * r)) * (cy - (cy + sin a * r))) = \<bar>r\<bar>"
proof -
  have "(cx - (cx + cos a * r)) * (cx - (cx + cos a * r)) +
        (cy - (cy + sin a * r)) * (cy - (cy + sin a * r)) = (cos a * r)\<^sup>2 + (sin a * r)\<^sup>2"
    by (simp add: power2_eq_square)
  then show ?thesis by (simp only: polar_radius)
qed

lemma orb_step_raises:
  "0 < I \<Longrightarrow> of_int R + deviation x = 0 \<Longrightarrow>
     orb_step c R I x = Inl (ZeroDivisionError, x\<lparr>angle := angle x + angular_velocity x\<rparr>)"
  by (simp add: orb_step_def Let_def)

lemma orb_step_returns:
  "of_int R + deviation x \<noteq> 0 \<Longrightarrow> \<exists>r. orb_step c R I x = Inr r"
proof (cases "0 < I")
  case False
  then show ?thesis using orb_step_quiet_total [of I c R x] by simp
next
  case True
  assume "of_int R + deviation x \<noteq> 0"
  then have "sqrt ((of_int (fst c) - (of_int (fst c) + cos (angle x + angular_velocity x) * (of_int R + deviation x))) *
                   (of_int (fst c) - (of_int (fst c) + cos (angle x + angular_velocity x) * (of_int R + deviation x))) +
                   (of_int (snd c) - (of_int (snd c) + sin (angle x + angular_velocity x) * (of_int R + deviation x))) *
                   (of_int (snd c) - (of_int (snd c) + sin (angle x + angular_velocity x) * (of_int R + deviation x)))) \<noteq> 0"
    unfolding center_distance by simp
  then have "\<not> isl (orb_step c R I x)" using True by (simp add: orb_step_def Let_def)
  then show ?thesis by (rule not_isl_Inr)
qed

lemma orb_step_Inl_iff:
  "(\<exists>y. orb_step c R I x = Inl y) \<longleftrightarrow> 0 < I \<and> of_int R + deviation x = 0"
proof
  assume "\<exists>y. orb_step c R I x = Inl y"
  then show "0 < I \<and> of_int R + deviation x = 0"
    using orb_step_returns [of R x c I] orb_step_quiet_total [of I c R x]
    by (metis Inl_Inr_False not_le_imp_less)
next
  assume "0 < I \<and> of_int R + deviation x = 0"
  then show "\<exists>y. orb_step c R I x = Inl y" using orb_step_raises by blast
qed

lemma update_orbs_raises:
  "\<exists>x \<in> set os. \<exists>y. orb_step c R I x = Inl y \<Longrightarrow> \<exists>r. update_orbs c R I i os ts = Inl r"
proof (induction os arbitrary: i ts)
  case Nil
  then show ?case by simp
next
  case (Cons o1 rest)
  show ?case
  proof (cases "orb_step c R I o1")
    case (Inl a)
    then show ?thesis by (cases a) simp
  next
    case (Inr b)
    then have "\<exists>x \<in> set rest. \<exists>y. orb_step c R I x = Inl y" using Cons.prems by auto
    from Cons.IH [OF this] obtain r where
      "update_orbs c R I (Suc i) rest (ts[i := ts ! i @ [snd b]]) = Inl r" by blast
    then show ?thesis using Inr by (cases b; cases r) auto
  qed
qed

lemma init_orbs_deviation [simp]: "x \<in> set (orbs (init w h)) \<Longrightarrow> deviation x = 0"
  by (auto simp: init_def new_orb_def)

section \<open>Facts about drawing the trails\<close>

lemma draw_trail_loop_Inr_iff:
  "(\<exists>surf'. draw_trail_loop os i ts surf = Inr surf') \<longleftrightarrow>
     (\<forall>j < length ts. length os \<le> i + j \<longrightarrow> length (ts ! j) < 2)"
proof (induction ts arbitrary: i surf)
  case Nil
  then show ?case by simp
next
  case (Cons t ts)
  have split: "(\<forall>j < length (t # ts). length os \<le> i + j \<longrightarrow> length ((t # ts) ! j) < 2) \<longleftrightarrow>
        ((length os \<le> i \<longrightarrow> length t < 2) \<and>
         (\<forall>j < length ts. length os \<le> Suc i + j \<longrightarrow> length (ts ! j) < 2))"
    by (auto simp: less_Suc_eq_0_disj)
  show ?case unfolding split using Cons.IH [of "Suc i"] by auto
qed

lemma draw_trail_loop_total:
  "i + length ts \<le> length os \<Longrightarrow> \<exists>surf'. draw_trail_loop os i ts surf = Inr surf'"
  unfolding draw_trail_loop_Inr_iff by auto

lemma draw_stored_pattern_Some:
  "draw_stored_pattern s screen (Dict (Some ts)) =
     (case draw_trail_loop (orbs s) 0 ts [] of
        Inl (e, px) \<Rightarrow>
          Inl (e, s\<lparr>trails := ts, trail_surface := (trail_surface s)\<lparr>pixels := px\<rparr>\<rparr>, screen)
      | Inr px \<Rightarrow>
          Inr (s\<lparr>trails := replicate (length (orbs s)) [],
                 trail_surface := (trail_surface s)\<lparr>pixels := px\<rparr>\<rparr>,
               blit screen ((trail_surface s)\<lparr>pixels := px\<rparr>) BlendAlphaSDL2))"
  by (simp add: draw_stored_pattern_def draw_trails_def surf_fill_def Let_def
      split: sum.splits prod.splits)


section \<open>What the methods keep\<close>











section \<open>Updates with no audio energy\<close>

lemma orb_settle_still:
  assumes "x_velocity x = 0" and "y_velocity x = 0"
  shows "orb_settle c R I x (of_int (fst c) + cos b * r) (of_int (snd c) + sin b * r) =
     (spring_back (x\<lparr>deviation := \<bar>r\<bar> - of_int R, angle := atan2 (sin b * r) (cos b * r),
                      x_velocity := 0, y_velocity := 0\<rparr>),
      (of_int (fst c) + cos b * r, of_int (snd c) + sin b * r, I))"
  using assms by (simp add: orb_settle_def Let_def polar_radius)

lemma orb_step_still:
  assumes "I \<le> 0" and "x_velocity x = 0" and "y_velocity x = 0"
  shows "orb_step c R I x =
     Inr (spring_back
            (x\<lparr>deviation := \<bar>of_int R + deviation x\<bar> - of_int R,
               angle := atan2 (sin (angle x + angular_velocity x) * (of_int R + deviation x))
                              (cos (angle x + angular_velocity x) * (of_int R + deviation x)),
               x_velocity := 0, y_velocity := 0\<rparr>),
          (of_int (fst c) + cos (angle x + angular_velocity x) * (of_int R + deviation x),
           of_int (snd c) + sin (angle x + angular_velocity x) * (of_int R + deviation x), I))"
  using assms by (simp add: orb_step_quiet orb_settle_still)



lemma init_orb3 [simp]:
  "angle (orbs (init w h) ! 3) = 6 * pi / 5" "angular_velocity (orbs (init w h) ! 3) = 1 / 1000"
  by (simp_all add: init_def new_orb_def base_speed_def)


section \<open>The spring as a damped oscillation\<close>

lemma energy_spring:
  "spring_energy (d1 + (v + - spring_constant * d1), (v + - spring_constant * d1) * damping) =
     98 / 100 * spring_energy (d1, v)"
  by (simp add: spring_constant_def damping_def power2_eq_square field_simps)

lemma energy_lower: "9775 / 1000000 * d\<^sup>2 \<le> spring_energy (d, v)"
proof -
  have "spring_energy (d, v) - 9775 / 1000000 * d\<^sup>2 = (5 / 1000 * d + v)\<^sup>2"
    by (simp add: power2_eq_square algebra_simps)
  moreover have "0 \<le> (5 / 1000 * d + v)\<^sup>2" by simp
  ultimately show ?thesis by linarith
qed

lemma energy_reflect:
  assumes R: "0 \<le> R" and J: "- R \<le> d \<or> v \<le> 0"
  shows "spring_energy (\<bar>R + d\<bar> - R, v) \<le> spring_energy (d, v)"
proof (cases "0 \<le> R + d")
  case True
  then show ?thesis by simp
next
  case False
  then have v: "v \<le> 0" and neg: "R + d < 0" using J by auto
  have d1: "\<bar>R + d\<bar> - R = - 2 * R - d" using neg by simp
  have "spring_energy (- 2 * R - d, v) - spring_energy (d, v) =
          98 / 10000 * (4 * R * (R + d)) + 1 / 100 * (v * (- 2 * (R + d)))"
    by (simp add: power2_eq_square field_simps)
  moreover have "4 * R * (R + d) \<le> 0"
    using R neg by (simp add: mult_nonneg_nonpos)
  moreover have "v * (- 2 * (R + d)) \<le> 0"
    using v neg by (simp add: mult_nonpos_nonneg)
  ultimately show ?thesis unfolding d1 by linarith
qed


lemma spring_pair_zero: "0 \<le> R \<Longrightarrow> spring_pair R (0, v) = (0, v)"
  by simp

lemma spring_pair_side:
  assumes "0 \<le> R"
  shows "- of_int R \<le> fst (spring_pair R (d, v)) \<or> snd (spring_pair R (d, v)) \<le> 0"
proof -
  define d1 where "d1 = \<bar>of_int R + d\<bar> - of_int R"
  define v1 where "v1 = v + - spring_constant * d1"
  have lo: "- of_int R \<le> d1" unfolding d1_def by simp
  show ?thesis
  proof (cases "\<bar>d1\<bar> > 0")
    case False
    then have "spring_pair R (d, v) = (0, v)" by (simp add: d1_def)
    then show ?thesis using assms by simp
  next
    case True
    then have sp: "spring_pair R (d, v) = (d1 + v1, v1 * damping)"
      by (simp add: d1_def v1_def Let_def)
    show ?thesis
    proof (cases "- of_int R \<le> d1 + v1")
      case True
      then show ?thesis using sp by simp
    next
      case False
      then have "v1 < 0" using lo by linarith
      then have "v1 * damping \<le> 0" by (simp add: damping_def mult_le_0_iff)
      then show ?thesis using sp by simp
    qed
  qed
qed

lemma spring_pair_energy:
  assumes R: "0 \<le> R" and J: "- of_int R \<le> d \<or> v \<le> 0"
  shows "fst (spring_pair R (d, v)) = 0 \<or>
         spring_energy (spring_pair R (d, v)) \<le> 98 / 100 * spring_energy (d, v)"
proof -
  define d1 where "d1 = \<bar>of_int R + d\<bar> - of_int R"
  show ?thesis
  proof (cases "\<bar>d1\<bar> > 0")
    case False
    then have "spring_pair R (d, v) = (0, v)" by (simp add: d1_def)
    then show ?thesis by simp
  next
    case True
    then have sp: "spring_pair R (d, v) =
        (d1 + (v + - spring_constant * d1), (v + - spring_constant * d1) * damping)"
      by (simp add: d1_def Let_def)
    have "spring_energy (d1, v) \<le> spring_energy (d, v)"
      unfolding d1_def using R J by (intro energy_reflect) simp_all
    then show ?thesis unfolding sp energy_spring by simp
  qed
qed

lemma spring_iter:
  assumes R: "0 \<le> R" and J: "- of_int R \<le> fst p \<or> snd p \<le> 0"
  shows "(- of_int R \<le> fst ((spring_pair R ^^ n) p) \<or> snd ((spring_pair R ^^ n) p) \<le> 0) \<and>
         (fst ((spring_pair R ^^ n) p) = 0 \<or>
          spring_energy ((spring_pair R ^^ n) p) \<le> (98 / 100) ^ n * spring_energy p)"
proof (induction n)
  case 0
  then show ?case using J by simp
next
  case (Suc n)
  obtain d v where q: "(spring_pair R ^^ n) p = (d, v)" by (cases "(spring_pair R ^^ n) p")
  have nx: "(spring_pair R ^^ Suc n) p = spring_pair R (d, v)" using q by simp
  from Suc q have Jq: "- of_int R \<le> d \<or> v \<le> 0"
    and Eq: "d = 0 \<or> spring_energy (d, v) \<le> (98 / 100) ^ n * spring_energy p" by simp_all
  have side: "- of_int R \<le> fst (spring_pair R (d, v)) \<or> snd (spring_pair R (d, v)) \<le> 0"
    using R by (rule spring_pair_side)
  have en: "fst (spring_pair R (d, v)) = 0 \<or>
      spring_energy (spring_pair R (d, v)) \<le> (98 / 100) ^ Suc n * spring_energy p"
  proof (cases "d = 0")
    case True
    then show ?thesis using spring_pair_zero [OF R, of v] by simp
  next
    case False
    then have e: "spring_energy (d, v) \<le> (98 / 100) ^ n * spring_energy p" using Eq by simp
    from spring_pair_energy [OF R Jq] show ?thesis
    proof
      assume "fst (spring_pair R (d, v)) = 0"
      then show ?thesis by simp
    next
      assume "spring_energy (spring_pair R (d, v)) \<le> 98 / 100 * spring_energy (d, v)"
      then have "spring_energy (spring_pair R (d, v)) \<le> 98 / 100 * ((98 / 100) ^ n * spring_energy p)"
        using e by linarith
      then show ?thesis by simp
    qed
  qed
  show ?case unfolding nx using side en by simp
qed

lemma spring_iter_bound:
  assumes R: "0 \<le> R"
  shows "\<bar>fst ((spring_pair R ^^ n) (d0, 0))\<bar> \<le> 101 / 100 * \<bar>d0\<bar> * (99 / 100) ^ n"
proof -
  obtain d v where q: "(spring_pair R ^^ n) (d0, 0) = (d, v)"
    by (cases "(spring_pair R ^^ n) (d0, 0)")
  have rhs: "0 \<le> 101 / 100 * \<bar>d0\<bar> * (99 / 100) ^ n" by simp
  from spring_iter [OF R, of "(d0, 0)" n] q
  have "d = 0 \<or> spring_energy (d, v) \<le> (98 / 100) ^ n * spring_energy (d0, 0)" by simp
  then have "\<bar>d\<bar> \<le> 101 / 100 * \<bar>d0\<bar> * (99 / 100) ^ n"
  proof
    assume "d = 0"
    then show ?thesis using rhs by simp
  next
    assume e: "spring_energy (d, v) \<le> (98 / 100) ^ n * spring_energy (d0, 0)"
    have p: "(98 / 100 :: real) ^ n \<le> (9801 / 10000) ^ n"
      by (rule power_mono) simp_all
    have "9775 / 1000000 * d\<^sup>2 \<le> (98 / 100) ^ n * (98 / 10000 * d0\<^sup>2)"
      using energy_lower [of d v] e by simp
    also have "\<dots> \<le> (9801 / 10000) ^ n * (98 / 10000 * d0\<^sup>2)"
      using p by (intro mult_right_mono) simp_all
    finally have "9775 / 1000000 * d\<^sup>2 \<le> (9801 / 10000) ^ n * (98 / 10000 * d0\<^sup>2)" .
    moreover have "0 \<le> (9801 / 10000 :: real) ^ n * d0\<^sup>2" by simp
    ultimately have "d\<^sup>2 \<le> 10201 / 10000 * ((9801 / 10000) ^ n * d0\<^sup>2)" by linarith
    also have "\<dots> = (101 / 100 * \<bar>d0\<bar> * (99 / 100) ^ n)\<^sup>2"
    proof -
      have sq: "(9801 / 10000 :: real) = (99 / 100)\<^sup>2" by (simp add: power2_eq_square)
      have a: "((99 / 100 :: real) ^ n)\<^sup>2 = (9801 / 10000) ^ n"
        unfolding sq by (simp only: power_mult [symmetric] mult.commute)
      have b: "(101 / 100 :: real)\<^sup>2 = 10201 / 10000" by (simp add: power2_eq_square)
      have "(101 / 100 * \<bar>d0\<bar> * (99 / 100) ^ n)\<^sup>2 =
              (101 / 100)\<^sup>2 * \<bar>d0\<bar>\<^sup>2 * ((99 / 100) ^ n)\<^sup>2"
        by (simp only: power_mult_distrib)
      also have "\<dots> = 10201 / 10000 * ((9801 / 10000) ^ n * d0\<^sup>2)"
        unfolding a b by simp
      finally show ?thesis by simp
    qed
    finally have "d\<^sup>2 \<le> (101 / 100 * \<bar>d0\<bar> * (99 / 100) ^ n)\<^sup>2" .
    then show ?thesis using rhs by (simp add: abs_le_square_iff [symmetric])
  qed
  then show ?thesis using q by simp
qed

lemma spring_iter_limit:
  assumes R: "0 \<le> R"
  shows "(\<lambda>n. fst ((spring_pair R ^^ n) (d0, 0))) \<longlonglongrightarrow> 0"
proof (rule tendsto_0_le [where f = "\<lambda>n. (99 / 100 :: real) ^ n" and K = "101 / 100 * \<bar>d0\<bar>"])
  show "(\<lambda>n. (99 / 100 :: real) ^ n) \<longlonglongrightarrow> 0"
    by (rule LIMSEQ_realpow_zero) simp_all
  show "\<forall>\<^sub>F n in sequentially. norm (fst ((spring_pair R ^^ n) (d0, 0))) \<le>
          norm ((99 / 100 :: real) ^ n) * (101 / 100 * \<bar>d0\<bar>)"
    using spring_iter_bound [OF R, of _ d0] by (intro always_eventually) (simp add: mult.commute)
qed

lemma orb_step_pair:
  assumes "I \<le> 0" and "x_velocity x = 0" and "y_velocity x = 0"
    and "orb_step c R I x = Inr (x', p)"
  shows "x_velocity x' = 0" and "y_velocity x' = 0"
    and "(deviation x', radial_velocity x') = spring_pair R (deviation x, radial_velocity x)"
  using assms by (auto simp: orb_step_still spring_back_def Let_def)

lemma run_still:
  assumes "length (orbs s) \<le> length (trails s)" and "i < length (orbs s)"
    and "x_velocity (orbs s ! i) = 0" and "y_velocity (orbs s ! i) = 0"
    and "\<forall>(a, c) \<in> set calls. \<exists>d. a = Some d \<and> d \<noteq> Map.empty \<and> intensity_of d \<le> 0"
  shows "\<exists>s'. run_updates s calls = Inr s' \<and>
           (deviation (orbs s' ! i), radial_velocity (orbs s' ! i)) =
             (spring_pair (orbit_radius s) ^^ length calls)
               (deviation (orbs s ! i), radial_velocity (orbs s ! i))"
  using assms
proof (induction calls arbitrary: s)
  case Nil
  then show ?case by simp
next
  case (Cons x calls)
  obtain a c where x: "x = (a, c)" by (cases x)
  from Cons.prems(5) x obtain d where d: "a = Some d" "d \<noteq> Map.empty" "intensity_of d \<le> 0"
    by auto
  from update_quiet_total [OF d(2,3) Cons.prems(1)] obtain s1 where
    s1: "update s (Some d) c = Inr s1" by blast
  note o = update_Inr_orbs [OF d(2) s1]
  from o(4) [OF Cons.prems(2)] obtain p where
    st: "orb_step (center s) (orbit_radius s) (intensity_of d) (orbs s ! i) = Inr (orbs s1 ! i, p)"
    by blast
  note pr = orb_step_pair [OF d(3) Cons.prems(3,4) st]
  have l1: "length (orbs s1) \<le> length (trails s1)" "i < length (orbs s1)"
    using update_keeps_lengths [OF s1 Cons.prems(1)] Cons.prems(2) by simp_all
  have c1: "\<forall>(a, c) \<in> set calls. \<exists>d. a = Some d \<and> d \<noteq> Map.empty \<and> intensity_of d \<le> 0"
    using Cons.prems(5) by simp
  from Cons.IH [OF l1 pr(1,2) c1] obtain s' where
    s': "run_updates s1 calls = Inr s'" and
    e: "(deviation (orbs s' ! i), radial_velocity (orbs s' ! i)) =
             (spring_pair (orbit_radius s1) ^^ length calls)
               (deviation (orbs s1 ! i), radial_velocity (orbs s1 ! i))"
    by blast
  have "run_updates s (x # calls) = Inr s'" using x d(1) s1 s' by simp
  moreover have "(deviation (orbs s' ! i), radial_velocity (orbs s' ! i)) =
             (spring_pair (orbit_radius s) ^^ length (x # calls))
               (deviation (orbs s ! i), radial_velocity (orbs s ! i))"
    unfolding e pr(3) update_Inr(3) [OF d(2) s1] by (simp add: funpow_swap1)
  ultimately show ?case by blast
qed


lemma spring_pair_17:
  "(spring_pair 150 ^^ 17) (1 / 1000000, 0) = (- (668363878504488610083396269400621 / 10000000000000000000000000000000000000000), - (41389158197250317780744049417724729 / 500000000000000000000000000000000000000000))"
  by (simp add: eval_nat_numeral spring_constant_def damping_def)

lemma spring_pair_18:
  "(spring_pair 150 ^^ 18) (1 / 1000000, 0) = (- (148946340366445007959744329506110937 / 1000000000000000000000000000000000000000000), - (4023387673283811200618830425736393013 / 50000000000000000000000000000000000000000000))"
proof -
  have "(spring_pair 150 ^^ 18) (1 / 1000000, 0) =
          spring_pair 150 ((spring_pair 150 ^^ 17) (1 / 1000000, 0))"
    by (simp add: eval_nat_numeral)
  then show ?thesis unfolding spring_pair_17
    by (simp add: spring_constant_def damping_def)
qed

lemma run_still_deviation:
  assumes "0 \<le> orbit_radius s" and "length (orbs s) \<le> length (trails s)"
    and "i < length (orbs s)"
    and "x_velocity (orbs s ! i) = 0" and "y_velocity (orbs s ! i) = 0"
    and "radial_velocity (orbs s ! i) = 0"
    and "\<forall>(a, c) \<in> set calls. \<exists>d. a = Some d \<and> d \<noteq> Map.empty \<and> intensity_of d = 0"
  shows "\<exists>s'. run_updates s calls = Inr s' \<and>
           deviation (orbs s' ! i) =
             fst ((spring_pair (orbit_radius s) ^^ length calls) (deviation (orbs s ! i), 0)) \<and>
           radial_velocity (orbs s' ! i) =
             snd ((spring_pair (orbit_radius s) ^^ length calls) (deviation (orbs s ! i), 0))"
proof -
  have q: "\<forall>(a, c) \<in> set calls. \<exists>d. a = Some d \<and> d \<noteq> Map.empty \<and> intensity_of d \<le> 0"
    using assms(7) by fastforce
  from run_still [OF assms(2,3,4,5) q] obtain s' where
    s': "run_updates s calls = Inr s'" and
    e: "(deviation (orbs s' ! i), radial_velocity (orbs s' ! i)) =
         (spring_pair (orbit_radius s) ^^ length calls)
           (deviation (orbs s ! i), radial_velocity (orbs s ! i))"
    by blast
  from e have "(deviation (orbs s' ! i), radial_velocity (orbs s' ! i)) =
         (spring_pair (orbit_radius s) ^^ length calls) (deviation (orbs s ! i), 0)"
    using assms(6) by simp
  then have "deviation (orbs s' ! i) =
        fst ((spring_pair (orbit_radius s) ^^ length calls) (deviation (orbs s ! i), 0))"
    and "radial_velocity (orbs s' ! i) =
        snd ((spring_pair (orbit_radius s) ^^ length calls) (deviation (orbs s ! i), 0))"
    by (metis fst_conv, metis snd_conv)
  with s' show ?thesis by blast
qed

lemma run_idle_total:
  "\<forall>(a, c) \<in> set calls. \<forall>d. a = Some d \<longrightarrow> d \<noteq> Map.empty \<longrightarrow> intensity_of d \<le> 0 \<Longrightarrow>
   length (orbs s) \<le> length (trails s) \<Longrightarrow> \<exists>s'. run_updates s calls = Inr s'"
proof (induction calls arbitrary: s)
  case Nil
  then show ?case by simp
next
  case (Cons x calls)
  obtain a c where x: "x = (a, c)" by (cases x)
  have rest: "\<forall>(a, c) \<in> set calls. \<forall>d. a = Some d \<longrightarrow> d \<noteq> Map.empty \<longrightarrow> intensity_of d \<le> 0"
    using Cons.prems(1) by simp
  have "\<exists>s1. update s a c = Inr s1"
  proof (cases a)
    case None
    then show ?thesis by (simp add: update_absent)
  next
    case (Some d)
    show ?thesis
    proof (cases "d = Map.empty")
      case True
      then show ?thesis using Some by (simp add: update_empty)
    next
      case False
      then have "intensity_of d \<le> 0" using Cons.prems(1) x Some by simp
      from update_quiet_total [OF False this Cons.prems(2)] show ?thesis using Some by simp
    qed
  qed
  then obtain s1 where s1: "update s a c = Inr s1" by blast
  have "length (orbs s1) \<le> length (trails s1)"
    using update_keeps_lengths [OF s1 Cons.prems(2)] by simp
  from Cons.IH [OF rest this] show ?case using x s1 by simp
qed

lemma perturbed_facts:
  "0 \<le> orbit_radius perturbed" "orbit_radius perturbed = 150"
  "length (orbs perturbed) \<le> length (trails perturbed)"
  "0 < length (orbs perturbed)"
  "x_velocity (orbs perturbed ! 0) = 0" "y_velocity (orbs perturbed ! 0) = 0"
  "radial_velocity (orbs perturbed ! 0) = 0" "deviation (orbs perturbed ! 0) = 1 / 1000000"
  by (simp_all add: perturbed_def init_def new_orb_def)





















section \<open>The claims\<close>

text \<open>
  C4. Starting from a glow intensity in \<open>[0, 1]\<close>, after every call of a finite sequence
  of \<^verbatim>\<open>update\<close> calls whose audio intensities lie in \<open>[0, 1]\<close> the glow intensity is in
  \<open>[0, 1]\<close> again (also in the state a raising call leaves behind); a call that passes
  the guard sets it to \<open>min 1 (glow + 0.5 * intensity) * 0.95\<close>.
\<close>

theorem glow_intensity_in_unit_interval:
  assumes "0 \<le> glow_intensity s" and "glow_intensity s \<le> 1"
    and "\<forall>(a, c) \<in> set calls. \<forall>d. a = Some d \<longrightarrow> 0 \<le> intensity_of d \<and> intensity_of d \<le> 1"
  shows "(\<forall>n. 0 \<le> glow_intensity (state_of (run_updates s (take n calls))) \<and>
              glow_intensity (state_of (run_updates s (take n calls))) \<le> 1) \<and>
         (\<forall>d c. d \<noteq> Map.empty \<longrightarrow>
              glow_intensity (state_of (update s (Some d) c)) =
                min 1 (glow_intensity s + 0.5 * intensity_of d) * 0.95)"
proof (intro conjI allI impI)
  fix n
  have "\<forall>(a, c) \<in> set (take n calls). \<forall>d. a = Some d \<longrightarrow> 0 \<le> intensity_of d \<and> intensity_of d \<le> 1"
    using assms(3) by (meson in_set_takeD)
  from run_glow_bounds [OF assms(1,2) this]
  show "0 \<le> glow_intensity (state_of (run_updates s (take n calls)))"
    and "glow_intensity (state_of (run_updates s (take n calls))) \<le> 1" by simp_all
next
  fix d :: pydict and c
  assume "d \<noteq> Map.empty"
  then show "glow_intensity (state_of (update s (Some d) c)) =
                min 1 (glow_intensity s + 0.5 * intensity_of d) * 0.95"
    by (simp add: update_glow mult.commute)
qed

text \<open>C4 at a fresh 800 by 600 instance, one frame of intensity 1 and one absent frame.\<close>

theorem glow_intensity_in_unit_interval_witness:
  "0 \<le> glow_intensity (state_of (run_updates (init 800 600)
          (take 2 [(Some [''intensity'' \<mapsto> PNum 1], ''study''), (None, ''study'')]))) \<and>
   glow_intensity (state_of (run_updates (init 800 600)
          (take 2 [(Some [''intensity'' \<mapsto> PNum 1], ''study''), (None, ''study'')]))) \<le> 1"
proof -
  have h: "\<forall>(a, c) \<in> set [(Some [''intensity'' \<mapsto> PNum (1::real)], ''study''), (None, ''study'')].
      \<forall>d. a = Some d \<longrightarrow> 0 \<le> intensity_of d \<and> intensity_of d \<le> 1"
    by simp
  have g: "0 \<le> glow_intensity (init 800 600)" "glow_intensity (init 800 600) \<le> 1"
    by simp_all
  from glow_intensity_in_unit_interval [OF g h] show ?thesis
    by blast
qed

text \<open>
  C7. \<^verbatim>\<open>handle_click(pos)\<close> returns \<^verbatim>\<open>'selection'\<close> exactly when \<open>pos\<close> is inside the back
  button's rectangle, 40 by 40 at (20, 20), and screenshot mode is off, and \<^verbatim>\<open>None\<close>
  otherwise; (40, 40) gives the signal exactly when screenshot mode is off, (500, 500)
  never does.
\<close>

theorem handle_click_selection:
  "handle_click s pos =
     (if collidepoint back_button pos \<and> \<not> screenshot_mode s then Some ''selection'' else None) \<and>
   collidepoint back_button (x, y) = (20 \<le> x \<and> x < 60 \<and> 20 \<le> y \<and> y < 60) \<and>
   handle_click s (40, 40) = (if screenshot_mode s then None else Some ''selection'') \<and>
   handle_click s (500, 500) = None"
  by (simp add: handle_click_def collidepoint_def back_button_def)

text \<open>
  C6, as the claim states it, fails: a call whose frame is the empty dict returns at the
  guard and appends nothing, so after one such call on a fresh instance the trails have
  length 0, not 1.
\<close>

theorem empty_frame_appends_nothing:
  "\<not> isl (run_updates (init 800 600) [(Some Map.empty, ''study'')]) \<and>
   length (trails (state_of (run_updates (init 800 600) [(Some Map.empty, ''study'')])) ! 0)
     \<noteq> length [(Some Map.empty, ''study'') :: audio_data \<times> string]"
  by (simp add: update_empty)

text \<open>
  C6, amended. Every \<^verbatim>\<open>update\<close> call whose frame passes the guard (it is neither \<^verbatim>\<open>None\<close>
  nor the empty dict) and that returns appends exactly one point to each orb's trail, the
  point \<open>(x, y, intensity)\<close> that the loop body computes for that orb; a call whose frame
  does not pass the guard appends nothing. So after any sequence of calls that return, the
  trail of orb \<open>i\<close> is the old trail followed by one point for each call that passed the
  guard, in order and with that call's intensity, and after \<open>N\<close> calls that all pass
  the guard a trail that was empty has length \<open>N\<close>. Nothing is ever removed.
\<close>

theorem trail_grows_by_one:
  "(run_updates s calls = Inr s' \<and> i < length (orbs s) \<longrightarrow>
      (\<exists>ps. trails s' ! i = trails s ! i @ ps \<and>
            map (\<lambda>p. snd (snd p)) ps =
              map (\<lambda>(a, c). intensity_of (the a))
                (filter (\<lambda>(a, c). a \<noteq> None \<and> a \<noteq> Some Map.empty) calls))) \<and>
   (d \<noteq> Map.empty \<and> update s (Some d) cat = Inr s1 \<and> i < length (orbs s) \<longrightarrow>
      (\<exists>p. orb_step (center s) (orbit_radius s) (intensity_of d) (orbs s ! i) = Inr (orbs s1 ! i, p) \<and>
           trails s1 ! i = trails s ! i @ [p])) \<and>
   ((\<forall>(a, c) \<in> set calls. a \<noteq> None \<and> a \<noteq> Some Map.empty) \<and>
    run_updates s calls = Inr s' \<and> i < length (orbs s) \<and> trails s ! i = [] \<longrightarrow>
      length (trails s' ! i) = length calls)"
proof -
  have main: "\<exists>ps. trails s' ! i = trails s ! i @ ps \<and>
            map (\<lambda>p. snd (snd p)) ps =
              map (\<lambda>(a, c). intensity_of (the a))
                (filter (\<lambda>(a, c). a \<noteq> None \<and> a \<noteq> Some Map.empty) calls)"
    if "run_updates s calls = Inr s'" and "i < length (orbs s)" for s s' calls
    using that
  proof (induction calls arbitrary: s)
    case Nil
    then show ?case by simp
  next
    case (Cons x calls)
    obtain a c where x: "x = (a, c)" by (cases x)
    from Cons.prems(1) x obtain s1 where
      s1: "update s a c = Inr s1" and rest: "run_updates s1 calls = Inr s'"
      by (auto split: sum.splits)
    show ?case
    proof (cases "a = None \<or> a = Some Map.empty")
      case True
      then have "s1 = s" using s1 by (auto simp: update_absent update_empty)
      with Cons.IH [OF rest] Cons.prems(2) show ?thesis using True x by auto
    next
      case False
      then obtain d where d: "a = Some d" "d \<noteq> Map.empty" by auto
      from update_Inr_orbs(4) [OF d(2) s1 [unfolded d(1)] Cons.prems(2)] obtain p where
        st: "orb_step (center s) (orbit_radius s) (intensity_of d) (orbs s ! i) = Inr (orbs s1 ! i, p)"
        and tr: "trails s1 ! i = trails s ! i @ [p]" by blast
      have i1: "i < length (orbs s1)"
        using update_Inr_orbs(1) [OF d(2) s1 [unfolded d(1)]] Cons.prems(2) by simp
      from Cons.IH [OF rest i1] obtain ps where
        ps: "trails s' ! i = trails s1 ! i @ ps"
          "map (\<lambda>p. snd (snd p)) ps =
              map (\<lambda>(a, c). intensity_of (the a))
                (filter (\<lambda>(a, c). a \<noteq> None \<and> a \<noteq> Some Map.empty) calls)"
        by blast
      have "trails s' ! i = trails s ! i @ (p # ps)" using ps(1) tr by simp
      moreover have "map (\<lambda>p. snd (snd p)) (p # ps) =
              map (\<lambda>(a, c). intensity_of (the a))
                (filter (\<lambda>(a, c). a \<noteq> None \<and> a \<noteq> Some Map.empty) (x # calls))"
        using ps(2) orb_step_point [OF st] x d False by simp
      ultimately show ?thesis by blast
    qed
  qed
  have one: "\<exists>p. orb_step (center s) (orbit_radius s) (intensity_of d) (orbs s ! i) = Inr (orbs s1 ! i, p) \<and>
           trails s1 ! i = trails s ! i @ [p]"
    if "d \<noteq> Map.empty" and "update s (Some d) cat = Inr s1" and "i < length (orbs s)"
    using update_Inr_orbs(4) [OF that] .
  have count: "length (trails s' ! i) = length calls"
    if all: "\<forall>(a, c) \<in> set calls. a \<noteq> None \<and> a \<noteq> Some Map.empty"
      and run: "run_updates s calls = Inr s'" and i: "i < length (orbs s)"
      and e: "trails s ! i = []"
  proof -
    from main [OF run i] obtain ps where
      ps: "trails s' ! i = trails s ! i @ ps"
        "map (\<lambda>p. snd (snd p)) ps =
              map (\<lambda>(a, c). intensity_of (the a))
                (filter (\<lambda>(a, c). a \<noteq> None \<and> a \<noteq> Some Map.empty) calls)"
      by blast
    have f: "filter (\<lambda>(a, c). a \<noteq> None \<and> a \<noteq> Some Map.empty) calls = calls"
      using all by (intro filter_True) auto
    have "length ps = length (map (\<lambda>p. snd (snd p)) ps)" by simp
    also have "\<dots> = length (map (\<lambda>(a, c). intensity_of (the a)) calls)"
      by (simp only: ps(2) f)
    finally have "length ps = length calls" by simp
    then show ?thesis using ps(1) e by simp
  qed
  show ?thesis
  proof (intro conjI impI)
    assume "run_updates s calls = Inr s' \<and> i < length (orbs s)"
    then show "\<exists>ps. trails s' ! i = trails s ! i @ ps \<and>
            map (\<lambda>p. snd (snd p)) ps =
              map (\<lambda>(a, c). intensity_of (the a))
                (filter (\<lambda>(a, c). a \<noteq> None \<and> a \<noteq> Some Map.empty) calls)"
      using main [of s calls s'] by simp
  next
    assume "d \<noteq> Map.empty \<and> update s (Some d) cat = Inr s1 \<and> i < length (orbs s)"
    then show "\<exists>p. orb_step (center s) (orbit_radius s) (intensity_of d) (orbs s ! i) = Inr (orbs s1 ! i, p) \<and>
           trails s1 ! i = trails s ! i @ [p]"
      using one by simp
  next
    assume "(\<forall>(a, c) \<in> set calls. a \<noteq> None \<and> a \<noteq> Some Map.empty) \<and>
      run_updates s calls = Inr s' \<and> i < length (orbs s) \<and> trails s ! i = []"
    then show "length (trails s' ! i) = length calls"
      using count by simp
  qed
qed

text \<open>
  C6 amended, at a fresh 800 by 600 instance and four calls, two of intensity 0, one with
  the empty dict and one with no frame: two points in the fourth orb's trail.
\<close>

theorem trail_grows_by_one_witness:
  "\<exists>s'. run_updates (init 800 600)
           [(Some [''intensity'' \<mapsto> PNum 0], ''study''), (Some Map.empty, ''study''),
            (None, ''study''), (Some [''intensity'' \<mapsto> PNum 0], ''study'')] = Inr s' \<and>
         length (trails s' ! 3) = 2 \<and>
         map (\<lambda>p. snd (snd p)) (trails s' ! 3) = [0, 0]"
proof -
  let ?calls = "[(Some [''intensity'' \<mapsto> PNum 0], ''study''), (Some Map.empty, ''study''),
            (None, ''study''), (Some [''intensity'' \<mapsto> PNum 0], ''study'')]"
  have q: "\<forall>(a, c) \<in> set ?calls. \<forall>d. a = Some d \<longrightarrow> d \<noteq> Map.empty \<longrightarrow> intensity_of d \<le> 0"
    by auto
  from run_idle_total [OF q, of "init 800 600"] obtain s' where
    s': "run_updates (init 800 600) ?calls = Inr s'" by auto
  have i: "3 < length (orbs (init 800 600))" by simp
  from trail_grows_by_one [of "init 800 600" ?calls s' 3] s' i obtain ps where
    ps: "trails s' ! 3 = trails (init 800 600) ! 3 @ ps"
      "map (\<lambda>p. snd (snd p)) ps =
         map (\<lambda>(a, c). intensity_of (the a))
           (filter (\<lambda>(a, c). a \<noteq> None \<and> a \<noteq> Some Map.empty) ?calls)"
    by blast
  have e: "trails (init 800 600) ! 3 = []" by simp
  have m: "map (\<lambda>p. snd (snd p)) ps = [0, 0]" using ps(2) by simp
  have "length ps = 2" using arg_cong [OF m, of length] by simp
  with s' ps(1) e m show ?thesis by auto
qed

text \<open>
  C8, as the claim states it, fails: the empty dict is a present frame that misses both
  fields, yet \<^verbatim>\<open>not audio_data\<close> holds for it and \<^verbatim>\<open>update\<close> returns at once, where the
  frame with the two defaults written out runs the loop.
\<close>

theorem empty_frame_is_not_defaulted:
  "update (init 800 600) (Some Map.empty) ''study'' = Inr (init 800 600) \<and>
   update (init 800 600)
     (Some [''intensity'' \<mapsto> PNum 0, ''has_recent_peak'' \<mapsto> PBool False]) ''study''
     \<noteq> Inr (init 800 600)"
proof -
  let ?d = "[''intensity'' \<mapsto> PNum 0, ''has_recent_peak'' \<mapsto> PBool False]"
  have "time (state_of (update (init 800 600) (Some ?d) ''study'')) = time (init 800 600) + 0.016"
    by (rule update_quiet_time) simp_all
  then have "update (init 800 600) (Some ?d) ''study'' \<noteq> Inr (init 800 600)"
    by auto
  then show ?thesis by (simp add: update_empty)
qed

text \<open>
  C8, amended. \<^verbatim>\<open>update\<close> returns at once and leaves the whole state unchanged when the
  audio input is \<^verbatim>\<open>None\<close> or the empty dict. For a dict that is not empty, a missing
  \<^verbatim>\<open>'intensity'\<close> acts as 0 and a missing \<^verbatim>\<open>'has_recent_peak'\<close> as \<^verbatim>\<open>False\<close>: the call does
  what it does on the dict with the default written in.
\<close>

theorem update_absent_or_defaults:
  "update s None c = Inr s \<and>
   update s (Some Map.empty) c = Inr s \<and>
   (d \<noteq> Map.empty \<and> d ''intensity'' = None \<longrightarrow>
      update s (Some d) c = update s (Some (d(''intensity'' \<mapsto> PNum 0))) c) \<and>
   (d \<noteq> Map.empty \<and> d ''has_recent_peak'' = None \<longrightarrow>
      update s (Some d) c = update s (Some (d(''has_recent_peak'' \<mapsto> PBool False))) c)"
proof (intro conjI impI)
  show "update s None c = Inr s" by (rule update_absent)
  show "update s (Some Map.empty) c = Inr s" by (rule update_empty)
next
  assume "d \<noteq> Map.empty \<and> d ''intensity'' = None"
  then show "update s (Some d) c = update s (Some (d(''intensity'' \<mapsto> PNum 0))) c"
    by (intro update_depends_on_intensity) (simp_all add: intensity_of_missing)
next
  assume "d \<noteq> Map.empty \<and> d ''has_recent_peak'' = None"
  then show "update s (Some d) c = update s (Some (d(''has_recent_peak'' \<mapsto> PBool False))) c"
    by (intro update_depends_on_intensity) simp_all
qed

text \<open>C8 amended, at a fresh instance, for a frame without intensity and one without peak flag.\<close>

theorem update_absent_or_defaults_witness:
  "update (init 800 600) (Some [''has_recent_peak'' \<mapsto> PBool True]) ''study'' =
     update (init 800 600) (Some [''has_recent_peak'' \<mapsto> PBool True, ''intensity'' \<mapsto> PNum 0]) ''study'' \<and>
   update (init 800 600) (Some [''intensity'' \<mapsto> PNum 0.5]) ''study'' =
     update (init 800 600) (Some [''intensity'' \<mapsto> PNum 0.5, ''has_recent_peak'' \<mapsto> PBool False]) ''study''"
  using update_absent_or_defaults [of "init 800 600" "''study''" "[''has_recent_peak'' \<mapsto> PBool True]"]
    update_absent_or_defaults [of "init 800 600" "''study''" "[''intensity'' \<mapsto> PNum 0.5]"]
  by simp

text \<open>
  C9, as the claim states it, fails: the frame \<^verbatim>\<open>{'has_recent_peak': True}\<close> and the empty
  frame agree on the intensity (both default to 0) and differ in the peak flag, and
  \<^verbatim>\<open>update\<close> runs the loop on the first and returns at once on the second.
\<close>

theorem peak_key_reaches_guard:
  "intensity_of [''has_recent_peak'' \<mapsto> PBool True] = intensity_of Map.empty \<and>
   update (init 800 600) (Some [''has_recent_peak'' \<mapsto> PBool True]) ''study'' \<noteq>
     update (init 800 600) (Some Map.empty) ''study''"
proof -
  let ?d = "[''has_recent_peak'' \<mapsto> PBool True]"
  have "time (state_of (update (init 800 600) (Some ?d) ''study'')) = time (init 800 600) + 0.016"
    by (rule update_quiet_time) (simp_all add: intensity_of_missing)
  then have "update (init 800 600) (Some ?d) ''study'' \<noteq> Inr (init 800 600)"
    by auto
  then show ?thesis by (simp add: update_empty intensity_of_missing)
qed

text \<open>
  C9, amended. For two frames that both pass the guard (neither is the empty dict) and
  agree on the intensity, \<^verbatim>\<open>update\<close> gives the same result from any state, whatever the
  frames hold under \<^verbatim>\<open>'has_recent_peak'\<close>.
\<close>

theorem peak_value_unused:
  "d1 \<noteq> Map.empty \<Longrightarrow> d2 \<noteq> Map.empty \<Longrightarrow> intensity_of d1 = intensity_of d2 \<Longrightarrow>
     update s (Some d1) c = update s (Some d2) c"
  by (rule update_depends_on_intensity)

text \<open>C9 amended, at a fresh instance and two frames of intensity 0.5.\<close>

theorem peak_value_unused_witness:
  "update (init 800 600) (Some [''intensity'' \<mapsto> PNum 0.5, ''has_recent_peak'' \<mapsto> PBool True]) ''study'' =
   update (init 800 600) (Some [''intensity'' \<mapsto> PNum 0.5, ''has_recent_peak'' \<mapsto> PBool False]) ''study''"
  by (rule peak_value_unused) simp_all

text \<open>
  C3. The attraction step divides by the distance from the orb's position to the centre
  with no guard. With an intensity that is not positive the step skips the division and
  returns. With a positive intensity the distance is \<open>\<bar>orbit_radius + deviation\<bar>\<close>; when it
  is zero the step raises \<^verbatim>\<open>ZeroDivisionError\<close> with only the angle advanced, and no branch
  handles it; when it is not zero the step returns. So \<^verbatim>\<open>update\<close>, on a frame of positive
  intensity, raises exactly when some orb sits at the centre, and what it raises is
  \<^verbatim>\<open>ZeroDivisionError\<close>.
\<close>

theorem attraction_unguarded_division:
  "(I \<le> 0 \<longrightarrow> (\<exists>r. orb_step c R I x = Inr r)) \<and>
   (0 < I \<longrightarrow>
      (let a = angle x + angular_velocity x;
           radius = of_int R + deviation x;
           dx = of_int (fst c) - (of_int (fst c) + cos a * radius);
           dy = of_int (snd c) - (of_int (snd c) + sin a * radius);
           dist = sqrt (dx * dx + dy * dy)
       in dist = \<bar>radius\<bar> \<and>
          (dist = 0 \<longrightarrow> orb_step c R I x = Inl (ZeroDivisionError, x\<lparr>angle := a\<rparr>)) \<and>
          (dist \<noteq> 0 \<longrightarrow> (\<exists>r. orb_step c R I x = Inr r)))) \<and>
   (d \<noteq> Map.empty \<and> 0 < intensity_of d \<and> length (orbs s) \<le> length (trails s) \<longrightarrow>
      ((\<exists>e s'. update s (Some d) cat = Inl (e, s')) \<longleftrightarrow>
         (\<exists>x \<in> set (orbs s). of_int (orbit_radius s) + deviation x = 0)) \<and>
      (\<forall>e s'. update s (Some d) cat = Inl (e, s') \<longrightarrow> e = ZeroDivisionError))"
proof (intro conjI impI)
  assume "I \<le> 0"
  then show "\<exists>r. orb_step c R I x = Inr r" by (rule orb_step_quiet_total)
next
  assume I: "0 < I"
  show "let a = angle x + angular_velocity x;
           radius = of_int R + deviation x;
           dx = of_int (fst c) - (of_int (fst c) + cos a * radius);
           dy = of_int (snd c) - (of_int (snd c) + sin a * radius);
           dist = sqrt (dx * dx + dy * dy)
       in dist = \<bar>radius\<bar> \<and>
          (dist = 0 \<longrightarrow> orb_step c R I x = Inl (ZeroDivisionError, x\<lparr>angle := a\<rparr>)) \<and>
          (dist \<noteq> 0 \<longrightarrow> (\<exists>r. orb_step c R I x = Inr r))"
    unfolding Let_def center_distance
    using orb_step_raises [OF I, of R x c] orb_step_returns [of R x c I] by auto
next
  assume a: "d \<noteq> Map.empty \<and> 0 < intensity_of d \<and> length (orbs s) \<le> length (trails s)"
  let ?u = "update_orbs (center s) (orbit_radius s) (intensity_of d) 0 (orbs s) (trails s)"
  have len: "0 + length (orbs s) \<le> length (trails s)" using a by simp
  have iff: "(\<exists>r. ?u = Inl r) \<longleftrightarrow> (\<exists>x \<in> set (orbs s). of_int (orbit_radius s) + deviation x = 0)"
  proof
    assume "\<exists>r. ?u = Inl r"
    then obtain e os' ts' where "?u = Inl (e, os', ts')" by (metis prod_cases3)
    from update_orbs_error [OF len this] show "\<exists>x \<in> set (orbs s). of_int (orbit_radius s) + deviation x = 0"
      using orb_step_Inl_iff by blast
  next
    assume "\<exists>x \<in> set (orbs s). of_int (orbit_radius s) + deviation x = 0"
    then have "\<exists>x \<in> set (orbs s). \<exists>y. orb_step (center s) (orbit_radius s) (intensity_of d) x = Inl y"
      using a orb_step_Inl_iff by blast
    then show "\<exists>r. ?u = Inl r" by (rule update_orbs_raises)
  qed
  have upd: "(\<exists>e s'. update s (Some d) cat = Inl (e, s')) \<longleftrightarrow> (\<exists>r. ?u = Inl r)"
    using a by (auto simp: update_present split: sum.splits prod.splits)
  show "(\<exists>e s'. update s (Some d) cat = Inl (e, s')) \<longleftrightarrow>
         (\<exists>x \<in> set (orbs s). of_int (orbit_radius s) + deviation x = 0)"
    using upd iff by simp
  show "\<forall>e s'. update s (Some d) cat = Inl (e, s') \<longrightarrow> e = ZeroDivisionError"
  proof (intro allI impI)
    fix e s' assume "update s (Some d) cat = Inl (e, s')"
    then obtain os' ts' where "?u = Inl (e, os', ts')"
      using a by (auto simp: update_present split: sum.splits prod.splits)
    from update_orbs_error [OF len this] show "e = ZeroDivisionError" by simp
  qed
qed

text \<open>
  C3 at two instances: a 3 by 3 window has orbit radius 0, every orb sits at the centre
  and the first frame of positive intensity raises; an 800 by 600 window returns.
\<close>

theorem attraction_unguarded_division_witness:
  "(\<exists>s'. update (init 3 3) (Some [''intensity'' \<mapsto> PNum 0.5]) ''study'' = Inl (ZeroDivisionError, s')) \<and>
   (\<exists>s'. update (init 800 600) (Some [''intensity'' \<mapsto> PNum 0.5]) ''study'' = Inr s')"
proof -
  let ?d = "[''intensity'' \<mapsto> PNum 0.5]"
  have h3: "?d \<noteq> Map.empty \<and> 0 < intensity_of ?d \<and> length (orbs (init 3 3)) \<le> length (trails (init 3 3))"
    by simp
  have h8: "?d \<noteq> Map.empty \<and> 0 < intensity_of ?d \<and> length (orbs (init 800 600)) \<le> length (trails (init 800 600))"
    by simp
  have z: "\<exists>x \<in> set (orbs (init 3 3)). of_int (orbit_radius (init 3 3)) + deviation x = 0"
    by (auto simp: init_def new_orb_def)
  have nz: "\<not> (\<exists>x \<in> set (orbs (init 800 600)). of_int (orbit_radius (init 800 600)) + deviation x = 0)"
    by simp
  from attraction_unguarded_division [of _ _ _ _ ?d "init 3 3" "''study''"] h3 z
  have "\<exists>s'. update (init 3 3) (Some ?d) ''study'' = Inl (ZeroDivisionError, s')" by blast
  moreover
  from attraction_unguarded_division [of _ _ _ _ ?d "init 800 600" "''study''"] h8 nz
  have "\<not> (\<exists>e s'. update (init 800 600) (Some ?d) ''study'' = Inl (e, s'))" by blast
  then have "\<exists>s'. update (init 800 600) (Some ?d) ''study'' = Inr s'"
    by (cases "update (init 800 600) (Some ?d) ''study''") auto
  ultimately show ?thesis by blast
qed

text \<open>
  C10. \<^verbatim>\<open>draw_stored_pattern\<close> changes neither the state nor the screen when the pattern
  is not a dict or has no \<^verbatim>\<open>'trails'\<close> key. When it is a dict with that key and the call
  returns, the screen has received exactly one blit of the trail layer drawn from the
  stored trails, and every orb's trail is empty, whatever the trails held before. The call
  returns exactly when no stored trail of two points or more sits at an index with no orb
  (there \<^verbatim>\<open>self.orbs[i]\<close> raises \<^verbatim>\<open>IndexError\<close>), in particular for every pattern with at
  most one trail per orb.
\<close>

theorem stored_pattern_one_shot:
  "draw_stored_pattern s screen NotDict = Inr (s, screen) \<and>
   draw_stored_pattern s screen (Dict None) = Inr (s, screen) \<and>
   ((\<exists>r. draw_stored_pattern s screen (Dict (Some ts)) = Inr r) \<longleftrightarrow>
      (\<forall>j < length ts. length (orbs s) \<le> j \<longrightarrow> length (ts ! j) < 2)) \<and>
   (length ts \<le> length (orbs s) \<longrightarrow>
      (\<exists>px. draw_trail_loop (orbs s) 0 ts [] = Inr px \<and>
         draw_stored_pattern s screen (Dict (Some ts)) =
           Inr (s\<lparr>trails := replicate (length (orbs s)) [],
                  trail_surface := (trail_surface s)\<lparr>pixels := px\<rparr>\<rparr>,
                screen\<lparr>pixels := pixels screen @
                          [Blit px (surf_alpha (trail_surface s)) BlendAlphaSDL2]\<rparr>))) \<and>
   (draw_stored_pattern s screen (Dict (Some ts)) = Inr (s', screen') \<longrightarrow>
      trails s' = replicate (length (orbs s')) [] \<and>
      (\<forall>i < length (orbs s'). trails s' ! i = []) \<and>
      screen' = screen\<lparr>pixels := pixels screen @
                  [Blit (pixels (trail_surface s')) (surf_alpha (trail_surface s')) BlendAlphaSDL2]\<rparr> \<and>
      draw_trail_loop (orbs s) 0 ts [] = Inr (pixels (trail_surface s'))) \<and>
   draw_stored_pattern (s\<lparr>trails := old\<rparr>) screen (Dict (Some ts)) =
     draw_stored_pattern s screen (Dict (Some ts))"
proof (intro conjI impI)
  show "draw_stored_pattern s screen NotDict = Inr (s, screen)"
    and "draw_stored_pattern s screen (Dict None) = Inr (s, screen)"
    by (simp_all add: draw_stored_pattern_def)
  show "(\<exists>r. draw_stored_pattern s screen (Dict (Some ts)) = Inr r) \<longleftrightarrow>
      (\<forall>j < length ts. length (orbs s) \<le> j \<longrightarrow> length (ts ! j) < 2)"
    using draw_trail_loop_Inr_iff [of "orbs s" 0 ts "[]"]
    by (auto simp: draw_stored_pattern_Some split: sum.splits prod.splits)
  show "draw_stored_pattern (s\<lparr>trails := old\<rparr>) screen (Dict (Some ts)) =
     draw_stored_pattern s screen (Dict (Some ts))"
    by (simp add: draw_stored_pattern_Some split: sum.splits prod.splits)
next
  assume "length ts \<le> length (orbs s)"
  then obtain px where "draw_trail_loop (orbs s) 0 ts [] = Inr px"
    using draw_trail_loop_total [of 0 ts "orbs s" "[]"] by auto
  then show "\<exists>px. draw_trail_loop (orbs s) 0 ts [] = Inr px \<and>
         draw_stored_pattern s screen (Dict (Some ts)) =
           Inr (s\<lparr>trails := replicate (length (orbs s)) [],
                  trail_surface := (trail_surface s)\<lparr>pixels := px\<rparr>\<rparr>,
                screen\<lparr>pixels := pixels screen @
                          [Blit px (surf_alpha (trail_surface s)) BlendAlphaSDL2]\<rparr>)"
    by (simp add: draw_stored_pattern_Some blit_def paint_def)
next
  assume r: "draw_stored_pattern s screen (Dict (Some ts)) = Inr (s', screen')"
  then obtain px where l: "draw_trail_loop (orbs s) 0 ts [] = Inr px"
    and s': "s' = s\<lparr>trails := replicate (length (orbs s)) [],
                     trail_surface := (trail_surface s)\<lparr>pixels := px\<rparr>\<rparr>"
    and sc: "screen' = blit screen ((trail_surface s)\<lparr>pixels := px\<rparr>) BlendAlphaSDL2"
    by (auto simp: draw_stored_pattern_Some split: sum.splits prod.splits)
  show "trails s' = replicate (length (orbs s')) []" using s' by simp
  show "\<forall>i < length (orbs s'). trails s' ! i = []" using s' by simp
  show "screen' = screen\<lparr>pixels := pixels screen @
                  [Blit (pixels (trail_surface s')) (surf_alpha (trail_surface s')) BlendAlphaSDL2]\<rparr>"
    using s' sc by (simp add: blit_def paint_def)
  show "draw_trail_loop (orbs s) 0 ts [] = Inr (pixels (trail_surface s'))" using s' l by simp
qed

text \<open>
  C10 at a fresh instance holding old trail points, and a stored pattern with one segment
  for the first orb.
\<close>

theorem stored_pattern_one_shot_witness:
  "draw_stored_pattern ((init 800 600)\<lparr>trails := [[(1, 1, 1)], [], [], [], []]\<rparr>) new_surface
     (Dict (Some [[(0, 0, 0), (3, 4, 1)], [], [], [], []])) =
   Inr ((init 800 600)
          \<lparr>trail_surface :=
             \<lparr>pixels = [Line (80, 180, 255, 255) (0, 0) (3, 4) 8], surf_alpha = None\<rparr>\<rparr>,
        \<lparr>pixels = [Blit [Line (80, 180, 255, 255) (0, 0) (3, 4) 8] None BlendAlphaSDL2],
         surf_alpha = None\<rparr>)"
proof -
  let ?ts = "[[(0, 0, 0), (3, 4, 1)], [], [], [], []] :: trail list"
  let ?s = "(init 800 600)\<lparr>trails := [[(1, 1, 1)], [], [], [], []]\<rparr>"
  have len: "length ?ts \<le> length (orbs ?s)" by simp
  have loop: "draw_trail_loop (orbs ?s) 0 ?ts [] = Inr [Line (80, 180, 255, 255) (0, 0) (3, 4) 8]"
    by (simp add: init_def new_orb_def py_int_def)
  have st: "?s\<lparr>trails := replicate (length (orbs ?s)) [],
                trail_surface :=
                  (trail_surface ?s)\<lparr>pixels := [Line (80, 180, 255, 255) (0, 0) (3, 4) 8]\<rparr>\<rparr> =
            (init 800 600)
              \<lparr>trail_surface :=
                 \<lparr>pixels = [Line (80, 180, 255, 255) (0, 0) (3, 4) 8], surf_alpha = None\<rparr>\<rparr>"
    by (simp add: init_def new_surface_def)
  have al: "surf_alpha (trail_surface ?s) = None" by (simp add: init_def new_surface_def)
  from stored_pattern_one_shot [of ?s new_surface ?ts] len obtain px where
    "draw_trail_loop (orbs ?s) 0 ?ts [] = Inr px" and
    "draw_stored_pattern ?s new_surface (Dict (Some ?ts)) =
       Inr (?s\<lparr>trails := replicate (length (orbs ?s)) [],
               trail_surface := (trail_surface ?s)\<lparr>pixels := px\<rparr>\<rparr>,
            new_surface\<lparr>pixels := pixels new_surface @
               [Blit px (surf_alpha (trail_surface ?s)) BlendAlphaSDL2]\<rparr>)"
    by blast
  then show ?thesis using loop st al by (simp add: new_surface_def)
qed







text \<open>
  C5, as the claim states it, fails in its second half: the spring is underdamped, so the
  deviation swings through zero and \<open>\<bar>deviation\<bar>\<close> grows again. From a deviation of one
  millionth and no velocity, with the radial velocity below one ten-millionth,
  \<open>\<bar>deviation\<bar>\<close> is larger after 18 updates of intensity 0 than after 17.
\<close>

theorem deviation_grows_again:
  "\<bar>deviation (orbs (state_of (run_updates perturbed
        (replicate 17 (Some [''intensity'' \<mapsto> PNum 0], ''study'')))) ! 0)\<bar> <
   \<bar>deviation (orbs (state_of (run_updates perturbed
        (replicate 18 (Some [''intensity'' \<mapsto> PNum 0], ''study'')))) ! 0)\<bar> \<and>
   \<bar>radial_velocity (orbs (state_of (run_updates perturbed
        (replicate 17 (Some [''intensity'' \<mapsto> PNum 0], ''study'')))) ! 0)\<bar> < 1 / 10000000 \<and>
   \<bar>radial_velocity (orbs (state_of (run_updates perturbed
        (replicate 18 (Some [''intensity'' \<mapsto> PNum 0], ''study'')))) ! 0)\<bar> < 1 / 10000000"
proof -
  let ?call = "(Some [''intensity'' \<mapsto> PNum 0], ''study'')"
  have q: "\<forall>(a, c) \<in> set (replicate n ?call). \<exists>d. a = Some d \<and> d \<noteq> Map.empty \<and> intensity_of d = 0"
    for n by simp
  note r = run_still_deviation [OF perturbed_facts(1,3,4,5,6,7) q, unfolded perturbed_facts(2,8)]
  from r [of 17] obtain s17 where
    s17: "run_updates perturbed (replicate 17 ?call) = Inr s17"
      "deviation (orbs s17 ! 0) = fst ((spring_pair 150 ^^ 17) (1 / 1000000, 0))"
      "radial_velocity (orbs s17 ! 0) = snd ((spring_pair 150 ^^ 17) (1 / 1000000, 0))"
    by auto
  from r [of 18] obtain s18 where
    s18: "run_updates perturbed (replicate 18 ?call) = Inr s18"
      "deviation (orbs s18 ! 0) = fst ((spring_pair 150 ^^ 18) (1 / 1000000, 0))"
      "radial_velocity (orbs s18 ! 0) = snd ((spring_pair 150 ^^ 18) (1 / 1000000, 0))"
    by auto
  show ?thesis
    unfolding s17 s18 state_of.simps spring_pair_17 spring_pair_18 by simp
qed

text \<open>
  C5, amended. For an orb with zero radial velocity and zero Cartesian velocity, whatever
  its deviation, and a non-negative orbit radius, repeated \<^verbatim>\<open>update\<close> calls whose frames
  pass the guard with intensity 0 all return and drive the deviation toward 0: the spring
  with the damping makes \<open>\<bar>deviation\<bar>\<close> converge to 0. Nothing is said of a monotone
  decrease.
\<close>

theorem deviation_converges:
  assumes "0 \<le> orbit_radius s" and "length (orbs s) \<le> length (trails s)"
    and "i < length (orbs s)"
    and "x_velocity (orbs s ! i) = 0" and "y_velocity (orbs s ! i) = 0"
    and "radial_velocity (orbs s ! i) = 0"
    and "\<forall>k. \<exists>d. fst (frames k) = Some d \<and> d \<noteq> Map.empty \<and> intensity_of d = 0"
  shows "(\<forall>n. \<exists>s'. run_updates s (map frames [0..<n]) = Inr s') \<and>
         (\<lambda>n. \<bar>deviation (orbs (state_of (run_updates s (map frames [0..<n]))) ! i)\<bar>)
           \<longlonglongrightarrow> 0"
proof
  have q: "\<forall>(a, c) \<in> set (map frames [0..<n]).
             \<exists>d. a = Some d \<and> d \<noteq> Map.empty \<and> intensity_of d = 0" for n
  proof -
    have "\<exists>d. fst x = Some d \<and> d \<noteq> Map.empty \<and> intensity_of d = 0"
      if "x \<in> set (map frames [0..<n])" for x
      using that assms(7) by auto
    then show ?thesis by (auto simp: case_prod_unfold)
  qed
  note r = run_still_deviation [OF assms(1-6) q]
  show "\<forall>n. \<exists>s'. run_updates s (map frames [0..<n]) = Inr s'"
    using r by blast
  have "(\<lambda>n. deviation (orbs (state_of (run_updates s (map frames [0..<n]))) ! i)) =
        (\<lambda>n. fst ((spring_pair (orbit_radius s) ^^ n) (deviation (orbs s ! i), 0)))"
  proof
    fix n
    from r [of n] obtain s' where
      "run_updates s (map frames [0..<n]) = Inr s'" and
      "deviation (orbs s' ! i) =
         fst ((spring_pair (orbit_radius s) ^^ length (map frames [0..<n])) (deviation (orbs s ! i), 0))"
      by blast
    then show "deviation (orbs (state_of (run_updates s (map frames [0..<n]))) ! i) =
        fst ((spring_pair (orbit_radius s) ^^ n) (deviation (orbs s ! i), 0))" by simp
  qed
  then have "(\<lambda>n. deviation (orbs (state_of (run_updates s (map frames [0..<n]))) ! i))
           \<longlonglongrightarrow> 0"
    using spring_iter_limit [OF assms(1), of "deviation (orbs s ! i)"] by simp
  then show "(\<lambda>n. \<bar>deviation (orbs (state_of (run_updates s (map frames [0..<n]))) ! i)\<bar>)
           \<longlonglongrightarrow> 0"
    by (simp add: tendsto_rabs_zero_iff)
qed

text \<open>C5 amended, at the displaced 800 by 600 instance, first orb, frames of intensity 0.\<close>

theorem deviation_converges_witness:
  "(\<exists>s'. run_updates perturbed
           (map (\<lambda>k. (Some [''intensity'' \<mapsto> PNum 0], ''study'')) [0..<100]) = Inr s') \<and>
   (\<lambda>n. \<bar>deviation (orbs (state_of (run_updates perturbed
           (map (\<lambda>k. (Some [''intensity'' \<mapsto> PNum 0], ''study'')) [0..<n]))) ! 0)\<bar>)
     \<longlonglongrightarrow> 0"
proof -
  have f: "\<forall>k::nat. \<exists>d. fst (Some [''intensity'' \<mapsto> PNum 0], ''study'') = Some d \<and>
             d \<noteq> Map.empty \<and> intensity_of d = 0"
    by simp
  from deviation_converges [OF perturbed_facts(1,3,4,5,6,7),
         of "\<lambda>k. (Some [''intensity'' \<mapsto> PNum 0], ''study'')", OF f]
  show ?thesis by blast
qed

end
